theory Spec2Isabelle
  imports Complex_Main "HOL-Library.Sublist"
begin

section \<open>The LibreCAL GUI's device session (caldevice.cpp)\<close>

text \<open>
  A shallow embedding of \<^verbatim>\<open>src/Software/LibreCAL-GUI/caldevice.cpp\<close>: the codec of the
  calibration standards, the addressing of the through coefficients, the acquisition of the
  coefficient sets from the device and the query for modified coefficients.

  A C++ \<^verbatim>\<open>int\<close> has 32 bits. The arithmetic of \<^verbatim>\<open>getThrough\<close> is modelled on \<^typ>\<open>int\<close> with
  every result checked against the range of \<^verbatim>\<open>int\<close>: a result outside it is an overflow,
  which C++ leaves undefined. The counters of the acquisition loops are port numbers and
  point indices and are modelled by \<^typ>\<open>int\<close>. The \<^verbatim>\<open>unsigned long\<close> counters of the
  acquisition are integers from 0 to \<open>2^64 - 1\<close> with the wrap-around written out. A
  \<^verbatim>\<open>QString\<close> is a \<^typ>\<open>string\<close> and a \<^verbatim>\<open>std::vector\<close> a list. A \<^verbatim>\<open>double\<close> is a value of a type
  \<open>'f\<close> about which nothing is assumed: the parser of doubles, their multiplication and the
  constant \<^verbatim>\<open>1e9\<close> are parameters, so that every statement holds for the rounding
  arithmetic of the machine. Behaviour that C++ leaves undefined is a value of type \<open>fault\<close>.
\<close>

subsection \<open>Standards and their names\<close>

text \<open>\<^verbatim>\<open>enum class Standard\<close> (the same enumeration as the firmware's \<^verbatim>\<open>Switch::Standard\<close>);
  the last enumerator is \<^verbatim>\<open>None\<close>.\<close>

datatype Standard = Open | Short | Load | Through | None_Standard

fun StandardToString :: "Standard \<Rightarrow> string" where
  "StandardToString Open = ''OPEN''"
| "StandardToString Short = ''SHORT''"
| "StandardToString Load = ''LOAD''"
| "StandardToString Through = ''THROUGH''"
| "StandardToString None_Standard = ''NONE''"

text \<open>The casts \<^verbatim>\<open>(int) Standard::None\<close> and \<^verbatim>\<open>(Standard) i\<close>; the loop of
  \<^verbatim>\<open>StandardFromString\<close> casts the values 0 to 4 only.\<close>

fun int_of_Standard :: "Standard \<Rightarrow> int" where
  "int_of_Standard Open = 0"
| "int_of_Standard Short = 1"
| "int_of_Standard Load = 2"
| "int_of_Standard Through = 3"
| "int_of_Standard None_Standard = 4"

definition Standard_of_int :: "int \<Rightarrow> Standard" where
  "Standard_of_int i =
     (if i = 0 then Open else if i = 1 then Short else if i = 2 then Load
      else if i = 3 then Through else None_Standard)"

text \<open>The loop \<^verbatim>\<open>for(int i=0;i<=(int) Standard::None;i++)\<close> of \<^verbatim>\<open>StandardFromString\<close>, from
  the value \<open>i\<close> of its counter on, with the \<^verbatim>\<open>return Standard::None\<close> after it.\<close>

function StandardFromString_loop :: "string \<Rightarrow> int \<Rightarrow> Standard" where
  "StandardFromString_loop s i =
     (if i \<le> int_of_Standard None_Standard then
        (if s = StandardToString (Standard_of_int i) then Standard_of_int i
         else StandardFromString_loop s (i + 1))
      else None_Standard)"
  by pat_completeness auto
termination
  by (relation "measure (\<lambda>(s, i). nat (5 - i))") auto

definition StandardFromString :: "string \<Rightarrow> Standard" where
  "StandardFromString s = StandardFromString_loop s 0"

subsection \<open>Traces, coefficients and coefficient sets\<close>

text \<open>\<^verbatim>\<open>Touchstone::Datapoint\<close>: the frequency and the values \<^verbatim>\<open>complex<double>\<close>, each the pair
  of its real and its imaginary part.\<close>

record 'f Datapoint =
  frequency :: 'f
  S :: "('f \<times> 'f) list"

text \<open>Modelled from the spec: the class \<^verbatim>\<open>Touchstone\<close> (touchstone.h and touchstone.cpp are not
  among the sources). The spec's trace is an ordered sequence of datapoints of a fixed port
  count; \<^verbatim>\<open>Touchstone(n)\<close> makes the empty trace of \<open>n\<close> ports and \<^verbatim>\<open>AddDatapoint\<close> appends a
  point.\<close>

record 'f Touchstone =
  trace_ports :: nat
  datapoints :: "'f Datapoint list"

definition Touchstone_new :: "nat \<Rightarrow> 'f Touchstone" where
  "Touchstone_new n = \<lparr>trace_ports = n, datapoints = []\<rparr>"

definition AddDatapoint :: "'f Touchstone \<Rightarrow> 'f Datapoint \<Rightarrow> 'f Touchstone" where
  "AddDatapoint tr p = tr\<lparr>datapoints := datapoints tr @ [p]\<rparr>"

text \<open>\<^verbatim>\<open>CoefficientSet::Coefficient\<close> and \<^verbatim>\<open>CoefficientSet\<close> (declared in caldevice.h, which is
  not among the sources; the fields are those that caldevice.cpp uses). The vectors hold
  pointers to coefficients that the acquisition allocates one by one and never shares, so a
  vector is the list of the coefficients it points to.\<close>

record 'f Coefficient =
  t :: "'f Touchstone"
  modified :: bool

record 'f CoefficientSet =
  name :: string
  ports :: int
  opens :: "'f Coefficient list"
  shorts :: "'f Coefficient list"
  loads :: "'f Coefficient list"
  throughs :: "'f Coefficient list"

text \<open>What C++ leaves undefined: a read of a vector outside its range, an integer division by
  zero, the end of a function that returns a value reached without a \<^verbatim>\<open>return\<close>, and an
  \<^verbatim>\<open>int\<close> result outside the range of \<^verbatim>\<open>int\<close>.\<close>

datatype fault = OutOfRangeRead | DivisionByZero | MissingReturn | IntOverflow

text \<open>The range of a 32-bit \<^verbatim>\<open>int\<close>.\<close>

definition int_ok :: "int \<Rightarrow> bool" where
  "int_ok x \<longleftrightarrow> - (2 ^ 31) \<le> x \<and> x < 2 ^ 31"

subsection \<open>Addressing of the through coefficients\<close>

text \<open>The loop \<^verbatim>\<open>while(port1 > 1) { index += ports - port1 + 1; port1--; }\<close> of
  \<^verbatim>\<open>getThrough\<close>; the result is the value of \<^verbatim>\<open>index\<close> after it, or the overflow of one of the
  results \<^verbatim>\<open>ports - port1\<close>, \<^verbatim>\<open>ports - port1 + 1\<close>, \<^verbatim>\<open>index + (ports - port1 + 1)\<close> and
  \<^verbatim>\<open>port1 - 1\<close>.\<close>

function getThrough_loop :: "int \<Rightarrow> int \<Rightarrow> int \<Rightarrow> fault + int" where
  "getThrough_loop P port1 index =
     (if port1 > 1 then
        (if int_ok (P - port1) \<and> int_ok (P - port1 + 1) \<and> int_ok (index + (P - port1 + 1))
            \<and> int_ok (port1 - 1)
         then getThrough_loop P (port1 - 1) (index + (P - port1 + 1))
         else Inl IntOverflow)
      else Inr index)"
  by pat_completeness auto
termination
  by (relation "measure (\<lambda>(P, port1, index). nat port1)") auto

text \<open>The index that \<^verbatim>\<open>getThrough\<close> reads, for a pair that has passed its guard:
  \<^verbatim>\<open>int index = port2 - port1 - 1\<close> and the loop.\<close>

definition getThrough_index :: "int \<Rightarrow> int \<Rightarrow> int \<Rightarrow> fault + int" where
  "getThrough_index P port1 port2 =
     (if int_ok (port2 - port1) \<and> int_ok (port2 - port1 - 1)
      then getThrough_loop P port1 (port2 - port1 - 1)
      else Inl IntOverflow)"

text \<open>\<^verbatim>\<open>CoefficientSet::getThrough\<close>: \<open>Inr None\<close> is the \<^verbatim>\<open>nullptr\<close>, \<open>Inr (Some c)\<close> a pointer
  to the coefficient \<open>c\<close>, and \<open>Inl OutOfRangeRead\<close> the read \<^verbatim>\<open>throughs[index]\<close> outside the
  vector.\<close>

definition getThrough :: "'f CoefficientSet \<Rightarrow> int \<Rightarrow> int \<Rightarrow> fault + 'f Coefficient option" where
  "getThrough cset port1 port2 =
     (if port1 > ports cset \<or> port2 > ports cset \<or> port1 \<ge> port2 then Inr None
      else (case getThrough_index (ports cset) port1 port2 of
              Inl e \<Rightarrow> Inl e
            | Inr index \<Rightarrow>
                if 0 \<le> index \<and> index < int (length (throughs cset))
                then Inr (Some (throughs cset ! nat index))
                else Inl OutOfRangeRead))"

subsection \<open>Strings\<close>

text \<open>\<^verbatim>\<open>QString::startsWith\<close>, \<^verbatim>\<open>QString::endsWith\<close>, \<^verbatim>\<open>QString::split\<close> with a separator of one
  character (empty parts are kept, so the result is never empty) and \<^verbatim>\<open>QString::number\<close> of an
  \<^verbatim>\<open>int\<close> (decimal digits, a minus sign before a negative number).\<close>

definition startsWith :: "string \<Rightarrow> string \<Rightarrow> bool" where
  "startsWith s x = (take (length x) s = x)"

definition endsWith :: "string \<Rightarrow> string \<Rightarrow> bool" where
  "endsWith s x = (length x \<le> length s \<and> drop (length s - length x) s = x)"

fun split_at :: "char \<Rightarrow> string \<Rightarrow> string list" where
  "split_at sep [] = [[]]"
| "split_at sep (c # cs) =
     (if c = sep then [] # split_at sep cs
      else (case split_at sep cs of
              [] \<Rightarrow> [[c]]
            | w # ws \<Rightarrow> (c # w) # ws))"

fun digits :: "nat \<Rightarrow> string" where
  "digits n =
     (if n < 10 then [''0123456789'' ! n]
      else digits (n div 10) @ [''0123456789'' ! (n mod 10)])"

definition number :: "int \<Rightarrow> string" where
  "number i = (if i < 0 then CHR ''-'' # digits (nat (- i)) else digits (nat i))"

subsection \<open>The device and the session\<close>

text \<open>What the acquisition uses and the sources do not hold: \<^verbatim>\<open>USBDevice::Query\<close>, the
  request and response channel to a device with a state of its own (type \<open>'d\<close>; a query
  returns the response and the device's next state), Qt's \<^verbatim>\<open>QString::toInt\<close> and
  \<^verbatim>\<open>QString::toDouble\<close>, and the arithmetic of \<^verbatim>\<open>double\<close> (type \<open>'f\<close>): the product of two
  doubles, rounded as the machine rounds it, and the constant \<^verbatim>\<open>1e9\<close>. They are parameters
  of the model.\<close>

record ('d, 'f) channel =
  Query :: "'d \<Rightarrow> string \<Rightarrow> string \<times> 'd"
  toInt :: "string \<Rightarrow> int"
  toDouble :: "string \<Rightarrow> 'f"
  mul_double :: "'f \<Rightarrow> 'f \<Rightarrow> 'f"
  double_1e9 :: 'f

text \<open>The signals \<^verbatim>\<open>updateCoefficientsPercent(int)\<close> and \<^verbatim>\<open>updateCoefficientsDone()\<close>.\<close>

datatype signal = updateCoefficientsPercent int | updateCoefficientsDone

text \<open>The state that an acquisition reads and writes: the members \<^verbatim>\<open>usb\<close> (the state of the
  device behind it), \<^verbatim>\<open>numPorts\<close> and \<^verbatim>\<open>coeffSets\<close> of \<^verbatim>\<open>CalDevice\<close>, the signals emitted so
  far (oldest first), and the locals \<^verbatim>\<open>readPoints\<close> and \<^verbatim>\<open>lastPercentage\<close> of
  \<^verbatim>\<open>updateCoefficientSetsThread\<close>, which its lambda captures by reference.\<close>

record ('d, 'f) session =
  usb :: 'd
  numPorts :: int
  coeffSets :: "'f CoefficientSet list"
  emitted :: "signal list"
  readPoints :: int
  lastPercentage :: int

subsection \<open>Machine arithmetic of the progress computation\<close>

text \<open>The conversion of an \<^verbatim>\<open>int\<close> to \<^verbatim>\<open>unsigned long\<close> (64 bits) and of an \<^verbatim>\<open>unsigned long\<close> to
  \<^verbatim>\<open>int\<close> (32 bits, two's complement).\<close>

definition to_ulong :: "int \<Rightarrow> int" where
  "to_ulong x = x mod 2 ^ 64"

definition to_int :: "int \<Rightarrow> int" where
  "to_int n = (let m = n mod 2 ^ 32 in if m < 2 ^ 31 then m else m - 2 ^ 32)"

text \<open>\<^verbatim>\<open>readPoints * 100 / totalPoints\<close> in \<^verbatim>\<open>unsigned long\<close>, assigned to the
  \<^verbatim>\<open>int newPercentage\<close>, for a \<open>totalPoints\<close> other than zero; the division by zero is a
  fault of \<open>fetch_point\<close>.\<close>

definition percentage :: "int \<Rightarrow> int \<Rightarrow> int" where
  "percentage totalPoints rp = to_int (to_ulong (rp * 100) div totalPoints)"

subsection \<open>Loops\<close>

text \<open>A range-based or counting \<^verbatim>\<open>for\<close> loop over the values \<open>xs\<close>, whose body may fail: the
  loop stops at the first failure.\<close>

fun for_each :: "'i list \<Rightarrow> ('i \<Rightarrow> 's \<Rightarrow> fault + 's) \<Rightarrow> 's \<Rightarrow> fault + 's" where
  "for_each [] body s = Inr s"
| "for_each (x # xs) body s =
     (case body x s of
        Inl e \<Rightarrow> Inl e
      | Inr s' \<Rightarrow> for_each xs body s')"

subsection \<open>Acquisition of the coefficient sets\<close>

text \<open>Lines 161 to 173 of \<^verbatim>\<open>createCoefficient\<close>: the datapoint of one response to
  \<^verbatim>\<open>:COEFF:GET?\<close>. The frequency is the product, in doubles, of the first field and \<^verbatim>\<open>1e9\<close>.
  The loop over \<open>j\<close> collects the complex values in wire order; a point of exactly four
  values has its second and third value swapped.\<close>

definition wire_values :: "(string \<Rightarrow> 'f) \<Rightarrow> string list \<Rightarrow> ('f \<times> 'f) list" where
  "wire_values toD vals =
     map (\<lambda>j. (toD (vals ! (1 + j * 2)), toD (vals ! (2 + j * 2))))
       [0..<(length vals - 1) div 2]"

definition swap_S21_S12 :: "('f \<times> 'f) list \<Rightarrow> ('f \<times> 'f) list" where
  "swap_S21_S12 zs = (if length zs = 4 then zs[1 := zs ! 2, 2 := zs ! 1] else zs)"

definition parse_point :: "('d, 'f) channel \<Rightarrow> string \<Rightarrow> 'f Datapoint" where
  "parse_point ch pString =
     (let vals = split_at CHR '','' pString
      in \<lparr>frequency = mul_double ch (toDouble ch (vals ! 0)) (double_1e9 ch),
          S = swap_S21_S12 (wire_values (toDouble ch) vals)\<rparr>)"

text \<open>The body of the loop \<^verbatim>\<open>for(int i=0;i<points;i++)\<close> of \<^verbatim>\<open>createCoefficient\<close>: fetch point
  \<open>i\<close>, add it to the trace of the coefficient, count it and emit the percentage if it differs
  from the last one. The division by \<^verbatim>\<open>totalPoints\<close> is undefined when that is zero.\<close>

definition fetch_point ::
  "('d, 'f) channel \<Rightarrow> int \<Rightarrow> string \<Rightarrow> string \<Rightarrow> int \<Rightarrow> 'f Coefficient \<times> ('d, 'f) session
     \<Rightarrow> fault + 'f Coefficient \<times> ('d, 'f) session" where
  "fetch_point ch totalPoints setName paramName i = (\<lambda>(c, st).
     (case Query ch (usb st)
             ('':COEFF:GET? '' @ setName @ '' '' @ paramName @ '' '' @ number i) of
        (pString, u) \<Rightarrow>
          (let p = parse_point ch pString;
               c' = c\<lparr>t := AddDatapoint (t c) p\<rparr>;
               rp = to_ulong (readPoints st + 1)
           in if totalPoints = 0 then Inl DivisionByZero
              else (let newPercentage = percentage totalPoints rp
                    in if newPercentage \<noteq> lastPercentage st
                       then Inr (c', st\<lparr>usb := u, readPoints := rp,
                                   lastPercentage := newPercentage,
                                   emitted := emitted st @ [updateCoefficientsPercent newPercentage]\<rparr>)
                       else Inr (c', st\<lparr>usb := u, readPoints := rp\<rparr>)))))"

text \<open>The lambda \<^verbatim>\<open>createCoefficient\<close>: ask for the number of points, make the coefficient with
  an empty trace of two ports for a through and of one port otherwise, and fetch the points.\<close>

definition createCoefficient ::
  "('d, 'f) channel \<Rightarrow> int \<Rightarrow> string \<Rightarrow> string \<Rightarrow> ('d, 'f) session \<Rightarrow> fault + 'f Coefficient \<times> ('d, 'f) session" where
  "createCoefficient ch totalPoints setName paramName st =
     (case Query ch (usb st) ('':COEFF:NUM? '' @ setName @ '' '' @ paramName) of
        (resp, u) \<Rightarrow>
          (let points = toInt ch resp;
               c = \<lparr>t = Touchstone_new (if endsWith paramName ''THROUGH'' then 2 else 1),
                    modified = False\<rparr>
           in for_each [0..points - 1] (fetch_point ch totalPoints setName paramName)
                (c, st\<lparr>usb := u\<rparr>)))"

text \<open>The body of the loop over \<open>j\<close> (line 188) and the body of the loop over the ports \<open>i\<close>
  (lines 151 to 189) of the download pass, on the set under construction and the session.\<close>

definition read_through ::
  "('d, 'f) channel \<Rightarrow> int \<Rightarrow> string \<Rightarrow> int \<Rightarrow> int \<Rightarrow> 'f CoefficientSet \<times> ('d, 'f) session
     \<Rightarrow> fault + 'f CoefficientSet \<times> ('d, 'f) session" where
  "read_through ch totalPoints nm i j = (\<lambda>(cset, st).
     (case createCoefficient ch totalPoints nm (''P'' @ number i @ number j @ ''_THROUGH'') st of
        Inl e \<Rightarrow> Inl e
      | Inr (c, st') \<Rightarrow> Inr (cset\<lparr>throughs := throughs cset @ [c]\<rparr>, st')))"

definition read_port ::
  "('d, 'f) channel \<Rightarrow> int \<Rightarrow> string \<Rightarrow> int \<Rightarrow> 'f CoefficientSet \<times> ('d, 'f) session
     \<Rightarrow> fault + 'f CoefficientSet \<times> ('d, 'f) session" where
  "read_port ch totalPoints nm i = (\<lambda>(cset, st).
     (case createCoefficient ch totalPoints nm (''P'' @ number i @ ''_OPEN'') st of
        Inl e \<Rightarrow> Inl e
      | Inr (c1, st1) \<Rightarrow>
     (case createCoefficient ch totalPoints nm (''P'' @ number i @ ''_SHORT'') st1 of
        Inl e \<Rightarrow> Inl e
      | Inr (c2, st2) \<Rightarrow>
     (case createCoefficient ch totalPoints nm (''P'' @ number i @ ''_LOAD'') st2 of
        Inl e \<Rightarrow> Inl e
      | Inr (c3, st3) \<Rightarrow>
          for_each [i + 1..numPorts st] (read_through ch totalPoints nm i)
            (cset\<lparr>opens := opens cset @ [c1], shorts := shorts cset @ [c2],
                  loads := loads cset @ [c3]\<rparr>, st3)))))"

text \<open>The body of the loop over the set names of the download pass (lines 145 to 191): build
  the set, then append it to \<^verbatim>\<open>coeffSets\<close>.\<close>

definition read_set ::
  "('d, 'f) channel \<Rightarrow> int \<Rightarrow> string \<Rightarrow> ('d, 'f) session \<Rightarrow> fault + 'f CoefficientSet \<times> ('d, 'f) session" where
  "read_set ch totalPoints nm st =
     for_each [1..numPorts st] (read_port ch totalPoints nm)
       (\<lparr>name = nm, ports = numPorts st, opens = [], shorts = [], loads = [], throughs = []\<rparr>, st)"

definition download_set :: "('d, 'f) channel \<Rightarrow> int \<Rightarrow> string \<Rightarrow> ('d, 'f) session \<Rightarrow> fault + ('d, 'f) session" where
  "download_set ch totalPoints nm st =
     (case read_set ch totalPoints nm st of
        Inl e \<Rightarrow> Inl e
      | Inr (cset, st') \<Rightarrow> Inr (st'\<lparr>coeffSets := coeffSets st' @ [cset]\<rparr>))"

text \<open>The pre-scan (lines 131 to 141): one \<^verbatim>\<open>:COEFF:NUM?\<close> query per set and parameter, the
  answers added up in the \<^verbatim>\<open>unsigned long totalPoints\<close>. The state is the total and the state
  of the device.\<close>

definition count_points :: "('d, 'f) channel \<Rightarrow> string \<Rightarrow> string \<Rightarrow> int \<times> 'd \<Rightarrow> int \<times> 'd" where
  "count_points ch nm paramName = (\<lambda>(total, u).
     (case Query ch u ('':COEFF:NUM? '' @ nm @ '' '' @ paramName) of
        (resp, u') \<Rightarrow> (to_ulong (total + toInt ch resp), u')))"

definition prescan_port :: "('d, 'f) channel \<Rightarrow> int \<Rightarrow> string \<Rightarrow> int \<Rightarrow> int \<times> 'd \<Rightarrow> int \<times> 'd" where
  "prescan_port ch P nm i acc =
     (let acc1 = count_points ch nm (''P'' @ number i @ ''_OPEN'') acc;
          acc2 = count_points ch nm (''P'' @ number i @ ''_SHORT'') acc1;
          acc3 = count_points ch nm (''P'' @ number i @ ''_LOAD'') acc2
      in fold (\<lambda>j. count_points ch nm (''P'' @ number i @ number j @ ''_THROUGH'')) [i + 1..P] acc3)"

definition prescan :: "('d, 'f) channel \<Rightarrow> int \<Rightarrow> string list \<Rightarrow> 'd \<Rightarrow> int \<times> 'd" where
  "prescan ch P coeffList u = fold (\<lambda>nm. fold (prescan_port ch P nm) [1..P]) coeffList (0, u)"

text \<open>\<^verbatim>\<open>CalDevice::updateCoefficientSetsThread\<close>, run to its end, and
  \<^verbatim>\<open>CalDevice::updateCoefficientSets\<close>, which clears \<^verbatim>\<open>coeffSets\<close> and starts it. The thread is
  the only writer of the session; its steps are taken in program order.\<close>

definition updateCoefficientSetsThread :: "('d, 'f) channel \<Rightarrow> ('d, 'f) session \<Rightarrow> fault + ('d, 'f) session" where
  "updateCoefficientSetsThread ch st =
     (case Query ch (usb st) '':COEFF:LIST?'' of
        (resp, u) \<Rightarrow>
          if \<not> startsWith resp ''FACTORY''
          then Inr (st\<lparr>usb := u, emitted := emitted st @ [updateCoefficientsDone]\<rparr>)
          else (let coeffList = split_at CHR '','' resp
                in (case prescan ch (numPorts st) coeffList u of
                      (totalPoints, u') \<Rightarrow>
                        (case for_each coeffList (download_set ch totalPoints)
                                (st\<lparr>usb := u', readPoints := 0, lastPercentage := 0\<rparr>) of
                           Inl e \<Rightarrow> Inl e
                         | Inr st' \<Rightarrow>
                             Inr (st'\<lparr>emitted := emitted st' @ [updateCoefficientsDone]\<rparr>)))))"

definition updateCoefficientSets :: "('d, 'f) channel \<Rightarrow> ('d, 'f) session \<Rightarrow> fault + ('d, 'f) session" where
  "updateCoefficientSets ch st = updateCoefficientSetsThread ch (st\<lparr>coeffSets := []\<rparr>)"

subsection \<open>Modified coefficients\<close>

text \<open>One of the inner loops of \<^verbatim>\<open>hasModifiedCoefficients\<close> over a vector of coefficients:
  \<open>True\<close> when the loop returns \<^verbatim>\<open>true\<close> from the function.\<close>

fun returns_true :: "'f Coefficient list \<Rightarrow> bool" where
  "returns_true [] = False"
| "returns_true (c # cs) = (if modified c then True else returns_true cs)"

text \<open>\<^verbatim>\<open>CalDevice::hasModifiedCoefficients\<close> on the value of \<^verbatim>\<open>coeffSets\<close>. After the loop over the
  sets the function ends without a \<^verbatim>\<open>return\<close>.\<close>

fun hasModifiedCoefficients :: "'f CoefficientSet list \<Rightarrow> fault + bool" where
  "hasModifiedCoefficients [] = Inl MissingReturn"
| "hasModifiedCoefficients (cset # sets) =
     (if returns_true (opens cset) then Inr True
      else if returns_true (shorts cset) then Inr True
      else if returns_true (loads cset) then Inr True
      else if returns_true (throughs cset) then Inr True
      else hasModifiedCoefficients sets)"

subsection \<open>Auxiliary notions of the proofs\<close>

text \<open>The index of the first through coefficient of port \<open>a\<close>: the number of pairs whose
  smaller port is below \<open>a\<close>.\<close>

definition row_offset :: "int \<Rightarrow> int \<Rightarrow> int" where
  "row_offset P a = (\<Sum>k = 1..a - 1. P - k)"

text \<open>The index of the pair \<open>(a, b)\<close> by the formula of the addressing, in exact arithmetic.\<close>

definition through_slot :: "int \<Rightarrow> int \<Rightarrow> int \<Rightarrow> int" where
  "through_slot P a b = row_offset P a + (b - a - 1)"

subsection \<open>A simulated device\<close>

text \<open>Stand-ins for Qt's number parsers on the strings that the simulated devices send: a
  single digit from 1 to 9 is its value, every other string is 0. The doubles of the simulated
  devices are real numbers: the devices send single digits, and the product of a digit and
  \<^verbatim>\<open>1e9\<close> is exact in a double.\<close>

definition digit_value :: "string \<Rightarrow> nat" where
  "digit_value s =
     (if s = ''1'' then 1 else if s = ''2'' then 2 else if s = ''3'' then 3
      else if s = ''4'' then 4 else if s = ''5'' then 5 else if s = ''6'' then 6
      else if s = ''7'' then 7 else if s = ''8'' then 8 else if s = ''9'' then 9 else 0)"

text \<open>A simulated device without a state of its own. It lists the sets \<open>listing\<close>, reports two
  points for an open and for a through coefficient and one point for a short and for a load
  coefficient, and sends the same record for every point of a kind.\<close>

definition sim_response :: "string \<Rightarrow> string \<Rightarrow> string" where
  "sim_response listing q =
     (if q = '':COEFF:LIST?'' then listing
      else if startsWith q '':COEFF:NUM? ''
        then (if endsWith q ''OPEN'' \<or> endsWith q ''THROUGH'' then ''2'' else ''1'')
      else if startsWith q '':COEFF:GET? ''
        then (if endsWith (take (length q - 2) q) ''THROUGH'' then ''9,2,4,6,8,1,3,5,7''
              else ''9,2,4'')
      else [])"

definition sim_channel :: "string \<Rightarrow> (unit, real) channel" where
  "sim_channel listing =
     \<lparr>Query = (\<lambda>u q. (sim_response listing q, u)),
      toInt = (\<lambda>s. int (digit_value s)),
      toDouble = (\<lambda>s. real (digit_value s)),
      mul_double = (*), double_1e9 = 1000000000\<rparr>"

text \<open>A session of a device with \<open>P\<close> ports before its first acquisition, and a session that
  holds one set of an earlier acquisition.\<close>

definition new_session :: "int \<Rightarrow> (unit, real) session" where
  "new_session P =
     \<lparr>usb = (), numPorts = P, coeffSets = [], emitted = [], readPoints = 0, lastPercentage = 0\<rparr>"

definition held_session :: "(unit, real) session" where
  "held_session =
     (new_session 1)\<lparr>coeffSets :=
        [\<lparr>name = ''HELD'', ports = 1,
          opens = [\<lparr>t = Touchstone_new 1, modified = False\<rparr>],
          shorts = [\<lparr>t = Touchstone_new 1, modified = False\<rparr>],
          loads = [\<lparr>t = Touchstone_new 1, modified = False\<rparr>],
          throughs = []\<rparr>]\<rparr>"

text \<open>A simulated device with one set that holds no points.\<close>

definition empty_channel :: "(unit, real) channel" where
  "empty_channel =
     \<lparr>Query = (\<lambda>u q. (if q = '':COEFF:LIST?'' then ''FACTORY'' else ''0'', u)),
      toInt = (\<lambda>s. int (digit_value s)),
      toDouble = (\<lambda>s. real (digit_value s)),
      mul_double = (*), double_1e9 = 1000000000\<rparr>"

text \<open>A simulated device with one set and one point per coefficient, where the point of a
  through coefficient tells its pair: the frequency field is the first port and the real
  part of the first value the second port (the digits at positions 21 and 22 of the query
  \<^verbatim>\<open>:COEFF:GET? FACTORY P<a><b>_THROUGH 0\<close>).\<close>

definition echo_channel :: "(unit, real) channel" where
  "echo_channel =
     \<lparr>Query = (\<lambda>u q.
          (if q = '':COEFF:LIST?'' then ''FACTORY''
           else if startsWith q '':COEFF:NUM? '' then ''1''
           else if endsWith (take (length q - 2) q) ''THROUGH''
             then [q ! 21] @ '','' @ [q ! 22] @ '',0,0,0,0,0,0,0''
           else ''9,2,4'', u)),
      toInt = (\<lambda>s. int (digit_value s)),
      toDouble = (\<lambda>s. real (digit_value s)),
      mul_double = (*), double_1e9 = 1000000000\<rparr>"

text \<open>A simulated device without a state of its own whose counts cancel: it reports \<open>-1\<close>
  points for an open, one point for a short and no points for any other coefficient.\<close>

definition signed_channel :: "(unit, real) channel" where
  "signed_channel =
     \<lparr>Query = (\<lambda>u q.
          (if q = '':COEFF:LIST?'' then ''FACTORY''
           else if startsWith q '':COEFF:NUM? ''
             then (if endsWith q ''OPEN'' then ''-1'' else if endsWith q ''SHORT'' then ''1''
                   else ''0'')
           else ''9,2,4'', u)),
      toInt = (\<lambda>s. if s = ''-1'' then - 1 else int (digit_value s)),
      toDouble = (\<lambda>s. real (digit_value s)),
      mul_double = (*), double_1e9 = 1000000000\<rparr>"

text \<open>A simulated device with one set whose data arrives late: its state counts the queries
  it has answered; it reports no points in its first four answers (the listing and the three
  counts of the pre-scan of one port) and one point per coefficient from then on.\<close>

definition late_channel :: "(nat, real) channel" where
  "late_channel =
     \<lparr>Query = (\<lambda>u q.
          (if q = '':COEFF:LIST?'' then ''FACTORY''
           else if startsWith q '':COEFF:NUM? '' then (if u < 4 then ''0'' else ''1'')
           else ''9,2,4'', Suc u)),
      toInt = (\<lambda>s. int (digit_value s)),
      toDouble = (\<lambda>s. real (digit_value s)),
      mul_double = (*), double_1e9 = 1000000000\<rparr>"

definition late_session :: "(nat, real) session" where
  "late_session =
     \<lparr>usb = 0, numPorts = 1, coeffSets = [], emitted = [], readPoints = 0, lastPercentage = 0\<rparr>"

subsection \<open>Auxiliary notions of the claims\<close>

text \<open>The set names, the total of the pre-scan and the session with which
  \<^verbatim>\<open>updateCoefficientSetsThread\<close> enters its download loop (line 144), for a listing that starts
  with \<^verbatim>\<open>FACTORY\<close>.\<close>

definition thread_start :: "('d, 'f) channel \<Rightarrow> ('d, 'f) session \<Rightarrow> string list \<times> int \<times> ('d, 'f) session" where
  "thread_start ch st =
     (case Query ch (usb st) '':COEFF:LIST?'' of
        (resp, u) \<Rightarrow>
          (let coeffList = split_at CHR '','' resp
           in (case prescan ch (numPorts st) coeffList u of
                 (totalPoints, u') \<Rightarrow>
                   (coeffList, totalPoints,
                    st\<lparr>usb := u', readPoints := 0, lastPercentage := 0\<rparr>))))"

definition grand_total :: "('d, 'f) channel \<Rightarrow> ('d, 'f) session \<Rightarrow> int" where
  "grand_total ch st = fst (snd (thread_start ch st))"

text \<open>The session after the first \<open>k\<close> passes through the download loop, in the run that
  \<^verbatim>\<open>updateCoefficientSets\<close> starts on the session \<open>st\<close>.\<close>

definition after_sets :: "('d, 'f) channel \<Rightarrow> ('d, 'f) session \<Rightarrow> nat \<Rightarrow> fault + ('d, 'f) session" where
  "after_sets ch st k =
     (case thread_start ch (st\<lparr>coeffSets := []\<rparr>) of
        (coeffList, totalPoints, st0) \<Rightarrow>
          for_each (take k coeffList) (download_set ch totalPoints) st0)"

text \<open>The number of datapoints of a coefficient, of a set and of a collection of sets.\<close>

definition points_of :: "'f Coefficient \<Rightarrow> nat" where
  "points_of c = length (datapoints (t c))"

definition points_in :: "'f CoefficientSet \<Rightarrow> nat" where
  "points_in cset =
     sum_list (map points_of (opens cset)) + sum_list (map points_of (shorts cset))
     + sum_list (map points_of (loads cset)) + sum_list (map points_of (throughs cset))"

definition points_stored :: "'f CoefficientSet list \<Rightarrow> nat" where
  "points_stored sets = sum_list (map points_in sets)"

text \<open>The progress rule in the claim's words: while \<open>n\<close> further points are read, starting with
  the last percentage \<open>lp\<close> and \<open>rp\<close> points read, the percentage of a point is emitted exactly
  when it differs from the last percentage, which it then replaces. The result is the last
  percentage and the number of points read at the end, and the percentages emitted.\<close>

fun run_points :: "int \<Rightarrow> nat \<Rightarrow> int \<times> int \<Rightarrow> (int \<times> int) \<times> int list" where
  "run_points tot 0 s = (s, [])"
| "run_points tot (Suc n) (lp, rp) =
     (let rp' = to_ulong (rp + 1); new = percentage tot rp'
      in if new \<noteq> lp
         then (case run_points tot n (new, rp') of (s', out) \<Rightarrow> (s', new # out))
         else run_points tot n (lp, rp'))"

text \<open>The percentages emitted by a run that reads \<open>n\<close> points: \<^verbatim>\<open>lastPercentage\<close> and
  \<^verbatim>\<open>readPoints\<close> start at 0.\<close>

definition progress :: "int \<Rightarrow> nat \<Rightarrow> int list" where
  "progress tot n = snd (run_points tot n (0, 0))"

text \<open>The parameters of a set in the order in which the download pass asks for them, their
  names on the wire, and the vector that receives the coefficient of a parameter.\<close>

datatype param = P_OPEN int | P_SHORT int | P_LOAD int | P_THROUGH int int

fun paramName :: "param \<Rightarrow> string" where
  "paramName (P_OPEN i) = ''P'' @ number i @ ''_OPEN''"
| "paramName (P_SHORT i) = ''P'' @ number i @ ''_SHORT''"
| "paramName (P_LOAD i) = ''P'' @ number i @ ''_LOAD''"
| "paramName (P_THROUGH i j) = ''P'' @ number i @ number j @ ''_THROUGH''"

fun is_through :: "param \<Rightarrow> bool" where
  "is_through (P_THROUGH i j) = True"
| "is_through p = False"

definition port_params :: "int \<Rightarrow> int \<Rightarrow> param list" where
  "port_params P i = [P_OPEN i, P_SHORT i, P_LOAD i] @ map (P_THROUGH i) [i + 1..P]"

definition set_params :: "int \<Rightarrow> param list" where
  "set_params P = concat (map (port_params P) [1..P])"

text \<open>The pairs of the through coefficients in the order \<open>(1,2), (1,3), \<dots>, (1,P), (2,3), \<dots>,
  (P-1,P)\<close>.\<close>

definition through_pairs :: "int \<Rightarrow> (int \<times> int) list" where
  "through_pairs P = concat (map (\<lambda>i. map (Pair i) [i + 1..P]) [1..P])"

fun store :: "param \<Rightarrow> 'f Coefficient \<Rightarrow> 'f CoefficientSet \<Rightarrow> 'f CoefficientSet" where
  "store (P_OPEN i) c cset = cset\<lparr>opens := opens cset @ [c]\<rparr>"
| "store (P_SHORT i) c cset = cset\<lparr>shorts := shorts cset @ [c]\<rparr>"
| "store (P_LOAD i) c cset = cset\<lparr>loads := loads cset @ [c]\<rparr>"
| "store (P_THROUGH i j) c cset = cset\<lparr>throughs := throughs cset @ [c]\<rparr>"

definition create_store ::
  "('d, 'f) channel \<Rightarrow> int \<Rightarrow> string \<Rightarrow> param \<Rightarrow> 'f CoefficientSet \<times> ('d, 'f) session
     \<Rightarrow> fault + 'f CoefficientSet \<times> ('d, 'f) session" where
  "create_store ch totalPoints nm p = (\<lambda>(cset, st).
     (case createCoefficient ch totalPoints nm (paramName p) st of
        Inl e \<Rightarrow> Inl e
      | Inr (c, st') \<Rightarrow> Inr (store p c cset, st')))"

text \<open>The calls of \<^verbatim>\<open>createCoefficient\<close> for the parameters \<open>ps\<close>, one after the other: the
  coefficients that they build, in this order, and the session after the last call.\<close>

fun create_all ::
  "('d, 'f) channel \<Rightarrow> int \<Rightarrow> string \<Rightarrow> param list \<Rightarrow> ('d, 'f) session
     \<Rightarrow> fault + 'f Coefficient list \<times> ('d, 'f) session" where
  "create_all ch totalPoints nm [] st = Inr ([], st)"
| "create_all ch totalPoints nm (p # ps) st =
     (case createCoefficient ch totalPoints nm (paramName p) st of
        Inl e \<Rightarrow> Inl e
      | Inr (c, st') \<Rightarrow>
          (case create_all ch totalPoints nm ps st' of
             Inl e \<Rightarrow> Inl e
           | Inr (cs, st'') \<Rightarrow> Inr (c # cs, st'')))"

text \<open>The reading of \<open>m' - m\<close> points takes the progress state of the session \<open>st\<close> to that of
  the session \<open>st'\<close> and emits the percentages of these points after the signals of \<open>st\<close>.\<close>

definition advance :: "int \<Rightarrow> nat \<Rightarrow> ('d, 'f) session \<Rightarrow> nat \<Rightarrow> ('d, 'f) session \<Rightarrow> bool" where
  "advance tot m st m' st' \<longleftrightarrow>
     m \<le> m' \<and>
     (\<exists>out. run_points tot (m' - m) (lastPercentage st, readPoints st)
               = ((lastPercentage st', readPoints st'), out)
           \<and> emitted st' = emitted st @ map updateCoefficientsPercent out)"

section \<open>Properties\<close>

declare getThrough_loop.simps [simp del] StandardFromString_loop.simps [simp del]

subsection \<open>The codec of the standards\<close>

lemma StandardFromString_StandardToString: "StandardFromString (StandardToString s) = s"
  by (cases s)
    (simp_all add: StandardFromString_def Standard_of_int_def StandardFromString_loop.simps)

lemma StandardFromString_unknown:
  assumes "\<forall>s. r \<noteq> StandardToString s"
  shows "StandardFromString r = None_Standard"
proof -
  have "r \<noteq> StandardToString Open" "r \<noteq> StandardToString Short" "r \<noteq> StandardToString Load"
    "r \<noteq> StandardToString Through" "r \<noteq> StandardToString None_Standard"
    using assms by blast+
  then show ?thesis
    by (simp add: StandardFromString_def Standard_of_int_def StandardFromString_loop.simps[of r])
qed

text \<open>Claim C10. Decoding the name of a standard gives the standard back, for each of the
  five standards, and a string that is the name of no standard decodes to \<open>None\<close>.\<close>

theorem Standard_codec_round_trip:
  "StandardFromString (StandardToString s) = s
   \<and> ((\<forall>s'. r \<noteq> StandardToString s') \<longrightarrow> StandardFromString r = None_Standard)"
  using StandardFromString_StandardToString StandardFromString_unknown by blast

theorem Standard_codec_round_trip_witness:
  "StandardFromString (StandardToString Through) = Through
   \<and> StandardFromString ''garbage'' = None_Standard"
proof -
  have "\<forall>s'. ''garbage'' \<noteq> StandardToString s'"
  proof
    fix s' show "''garbage'' \<noteq> StandardToString s'" by (cases s') simp_all
  qed
  then show ?thesis
    using Standard_codec_round_trip[of Through "''garbage''"] by blast
qed

subsection \<open>The addressing of the through coefficients\<close>

lemma row_offset_1: "row_offset P 1 = 0"
  by (simp add: row_offset_def)

lemma row_offset_step: "1 \<le> a \<Longrightarrow> row_offset P (a + 1) = row_offset P a + (P - a)"
proof -
  assume a: "1 \<le> a"
  have "{1..a} = insert a {1..a - 1}"
    using a atLeastAtMostPlus1_int_conv[of 1 "a - 1"] by simp
  then show ?thesis by (simp add: row_offset_def)
qed

lemma row_offset_closed: "1 \<le> a \<Longrightarrow> 2 * row_offset P a = (a - 1) * (2 * P - a)"
proof (induction a rule: int_ge_induct)
  case base
  show ?case by (simp add: row_offset_1)
next
  case (step i)
  then show ?case using row_offset_step[of i P] by (simp add: algebra_simps)
qed

lemma row_offset_mono:
  assumes "a \<le> a'" "1 \<le> a" "a' \<le> P"
  shows "row_offset P a \<le> row_offset P a'"
  using assms
proof (induction a' rule: int_ge_induct)
  case base
  show ?case by simp
next
  case (step i)
  then show ?case by (simp add: row_offset_step)
qed

lemma row_offset_last: "1 \<le> P \<Longrightarrow> row_offset P P = P * (P - 1) div 2"
proof -
  assume "1 \<le> P"
  then have "2 * row_offset P P = P * (P - 1)"
    by (simp add: row_offset_closed algebra_simps)
  then show ?thesis by simp
qed

text \<open>The formula of the addressing: it puts every valid pair into the row of its first port
  and is a bijection from the valid pairs onto the indices of the table.\<close>

lemma through_slot_in_row:
  assumes "1 \<le> a" "a < b" "b \<le> P"
  shows "row_offset P a \<le> through_slot P a b"
    and "through_slot P a b < row_offset P (a + 1)"
  using assms by (simp_all add: through_slot_def row_offset_step)

lemma through_slot_range:
  assumes "1 \<le> a" "a < b" "b \<le> P"
  shows "0 \<le> through_slot P a b" and "through_slot P a b < P * (P - 1) div 2"
proof -
  have "row_offset P 1 \<le> row_offset P a"
    using assms by (intro row_offset_mono) auto
  then show "0 \<le> through_slot P a b"
    using through_slot_in_row(1)[OF assms] by (simp add: row_offset_1)
  have "row_offset P (a + 1) \<le> row_offset P P"
    using assms by (intro row_offset_mono) auto
  then show "through_slot P a b < P * (P - 1) div 2"
    using through_slot_in_row(2)[OF assms] assms row_offset_last[of P] by simp
qed

lemma through_slot_inj:
  assumes v: "1 \<le> a" "a < b" "b \<le> P" and v': "1 \<le> a'" "a' < b'" "b' \<le> P"
    and eq: "through_slot P a b = through_slot P a' b'"
  shows "a = a' \<and> b = b'"
proof -
  have less: False
    if "x < x'" and w: "1 \<le> x" "x < y" "y \<le> P" and w': "1 \<le> x'" "x' < y'" "y' \<le> P"
      and e: "through_slot P x y = through_slot P x' y'" for x y x' y'
  proof -
    have "through_slot P x y < row_offset P (x + 1)"
      using through_slot_in_row(2)[OF w] .
    also have "\<dots> \<le> row_offset P x'"
      using that by (intro row_offset_mono) auto
    also have "\<dots> \<le> through_slot P x' y'"
      using through_slot_in_row(1)[OF w'] .
    finally show False using e by simp
  qed
  have "a = a'"
  proof (rule ccontr)
    assume "a \<noteq> a'"
    then consider "a < a'" | "a' < a" by linarith
    then show False
      using less[OF _ v v' eq] less[OF _ v' v eq[symmetric]] by cases auto
  qed
  with eq show ?thesis by (simp add: through_slot_def)
qed

lemma through_slot_surj:
  assumes "1 \<le> a" "a \<le> P"
  shows "\<forall>k. 0 \<le> k \<and> k < row_offset P a \<longrightarrow>
           (\<exists>x y. 1 \<le> x \<and> x < y \<and> y \<le> P \<and> through_slot P x y = k)"
  using assms
proof (induction a rule: int_ge_induct)
  case base
  show ?case by (simp add: row_offset_1)
next
  case (step i)
  show ?case
  proof (intro allI impI)
    fix k assume k: "0 \<le> k \<and> k < row_offset P (i + 1)"
    show "\<exists>x y. 1 \<le> x \<and> x < y \<and> y \<le> P \<and> through_slot P x y = k"
    proof (cases "k < row_offset P i")
      case True
      with step k show ?thesis by simp
    next
      case False
      with k step(1) have "k < row_offset P i + (P - i)" "row_offset P i \<le> k"
        by (simp_all add: row_offset_step)
      then have "1 \<le> i \<and> i < i + 1 + (k - row_offset P i)
          \<and> i + 1 + (k - row_offset P i) \<le> P
          \<and> through_slot P i (i + 1 + (k - row_offset P i)) = k"
        using step(1) by (simp add: through_slot_def)
      then show ?thesis by blast
    qed
  qed
qed

lemma through_slot_bij:
  assumes "1 \<le> P"
  shows "bij_betw (\<lambda>(a, b). through_slot P a b) {(a, b). 1 \<le> a \<and> a < b \<and> b \<le> P}
           {0..P * (P - 1) div 2 - 1}"
  unfolding bij_betw_def
proof
  show "inj_on (\<lambda>(a, b). through_slot P a b) {(a, b). 1 \<le> a \<and> a < b \<and> b \<le> P}"
    by (rule inj_onI) (auto dest: through_slot_inj)
  show "(\<lambda>(a, b). through_slot P a b) ` {(a, b). 1 \<le> a \<and> a < b \<and> b \<le> P}
          = {0..P * (P - 1) div 2 - 1}"
  proof (rule set_eqI, rule iffI)
    fix k
    assume "k \<in> (\<lambda>(a, b). through_slot P a b) ` {(a, b). 1 \<le> a \<and> a < b \<and> b \<le> P}"
    then obtain a b where "1 \<le> a" "a < b" "b \<le> P" "k = through_slot P a b" by auto
    then show "k \<in> {0..P * (P - 1) div 2 - 1}"
      using through_slot_range[of a b P] by simp
  next
    fix k assume "k \<in> {0..P * (P - 1) div 2 - 1}"
    then have "0 \<le> k \<and> k < row_offset P P"
      using assms by (simp add: row_offset_last)
    then obtain x y where "1 \<le> x" "x < y" "y \<le> P" "through_slot P x y = k"
      using through_slot_surj[of P P] assms by blast
    then show "k \<in> (\<lambda>(a, b). through_slot P a b) ` {(a, b). 1 \<le> a \<and> a < b \<and> b \<le> P}"
      by force
  qed
qed


lemma row_offset_nonneg:
  assumes "1 \<le> a" "a \<le> P"
  shows "0 \<le> row_offset P a"
  using row_offset_mono[of 1 a P] assms by (simp add: row_offset_1)

text \<open>The loop of \<^verbatim>\<open>getThrough\<close> computes the exact sum as long as that fits an \<^verbatim>\<open>int\<close>, and
  overflows otherwise.\<close>

lemma getThrough_loop_checked:
  assumes "port1 \<le> P" "int_ok P" "0 \<le> idx" "int_ok idx"
  shows "getThrough_loop P port1 idx =
     (if int_ok (idx + (\<Sum>k = 1..port1 - 1. P - k))
      then Inr (idx + (\<Sum>k = 1..port1 - 1. P - k)) else Inl IntOverflow)"
  using assms
proof (induction P port1 idx rule: getThrough_loop.induct)
  case (1 P port1 index)
  show ?case
  proof (cases "port1 > 1")
    case False
    then show ?thesis
      using "1.prems" by (simp add: getThrough_loop.simps[of P port1])
  next
    case True
    let ?step = "P - port1 + 1"
    let ?rest = "\<Sum>k = 1..port1 - 1 - 1. P - k"
    have set: "{1..port1 - 1} = insert (port1 - 1) {1..port1 - 1 - 1}"
      using True atLeastAtMostPlus1_int_conv[of 1 "port1 - 1 - 1"] by simp
    have sum: "(\<Sum>k = 1..port1 - 1. P - k) = ?step + ?rest"
      unfolding set by simp
    have rest: "0 \<le> ?rest"
      using "1.prems"(1) by (intro sum_nonneg) auto
    have small: "int_ok (P - port1)" "int_ok ?step" "int_ok (port1 - 1)"
      using True "1.prems"(1,2) by (auto simp: int_ok_def)
    show ?thesis
    proof (cases "int_ok (index + ?step)")
      case ok: True
      have "getThrough_loop P port1 index = getThrough_loop P (port1 - 1) (index + ?step)"
        using True small ok by (simp add: getThrough_loop.simps[of P port1])
      also have "\<dots> = (if int_ok (index + ?step + ?rest)
          then Inr (index + ?step + ?rest) else Inl IntOverflow)"
        using True small ok "1.prems" by (intro "1.IH") auto
      finally show ?thesis by (simp add: sum add.assoc)
    next
      case no: False
      then have "\<not> int_ok (index + (?step + ?rest))"
        using rest "1.prems"(3) True "1.prems"(1) by (auto simp: int_ok_def)
      with no True show ?thesis
        by (simp add: getThrough_loop.simps[of P port1] sum)
    qed
  qed
qed

lemma getThrough_index_checked:
  assumes "1 \<le> a" "a < b" "b \<le> P" "int_ok P"
  shows "getThrough_index P a b =
     (if int_ok (through_slot P a b) then Inr (through_slot P a b) else Inl IntOverflow)"
proof -
  have "int_ok (b - a)" "int_ok (b - a - 1)"
    using assms by (auto simp: int_ok_def)
  moreover have "getThrough_loop P a (b - a - 1) =
     (if int_ok (b - a - 1 + (\<Sum>k = 1..a - 1. P - k))
      then Inr (b - a - 1 + (\<Sum>k = 1..a - 1. P - k)) else Inl IntOverflow)"
    using assms calculation by (intro getThrough_loop_checked) auto
  ultimately show ?thesis
    by (simp add: getThrough_index_def through_slot_def row_offset_def add.commute)
qed

text \<open>Up to 65536 ports every index fits an \<^verbatim>\<open>int\<close>: the table has at most \<open>2147450880\<close>
  entries.\<close>

lemma table_size_bound:
  fixes P :: int
  assumes "1 \<le> P" "P \<le> 65536"
  shows "P * (P - 1) div 2 \<le> 2147450880"
proof -
  have "P * (P - 1) \<le> 65536 * (65535::int)"
    using assms by (intro mult_mono) auto
  then show ?thesis by simp
qed

lemma getThrough_index_valid:
  assumes "1 \<le> a" "a < b" "b \<le> P" "P \<le> 65536"
  shows "getThrough_index P a b = Inr (through_slot P a b)"
proof -
  have "1 \<le> P" using assms by simp
  from table_size_bound[OF this assms(4)] through_slot_range[OF assms(1-3)]
  have "int_ok (through_slot P a b)" by (simp add: int_ok_def)
  moreover have "int_ok P" using assms by (simp add: int_ok_def)
  ultimately show ?thesis
    using getThrough_index_checked[OF assms(1-3)] by simp
qed

lemma getThrough_index_bij:
  assumes "1 \<le> P" "P \<le> 65536"
  shows "bij_betw (\<lambda>(a, b). getThrough_index P a b) {(a, b). 1 \<le> a \<and> a < b \<and> b \<le> P}
           (Inr ` {0..P * (P - 1) div 2 - 1})"
proof -
  let ?A = "{(a, b). 1 \<le> a \<and> a < b \<and> b \<le> P}"
  have "bij_betw (\<lambda>(a, b). through_slot P a b) ?A {0..P * (P - 1) div 2 - 1}"
    using assms(1) by (rule through_slot_bij)
  moreover have "bij_betw (Inr :: int \<Rightarrow> fault + int) {0..P * (P - 1) div 2 - 1}
      (Inr ` {0..P * (P - 1) div 2 - 1})"
    by (intro inj_on_imp_bij_betw) (simp add: inj_on_def)
  ultimately have "bij_betw ((Inr :: int \<Rightarrow> fault + int) \<circ> (\<lambda>(a, b). through_slot P a b)) ?A
      (Inr ` {0..P * (P - 1) div 2 - 1})"
    by (rule bij_betw_trans)
  moreover have "bij_betw (\<lambda>(a, b). getThrough_index P a b) ?A (Inr ` {0..P * (P - 1) div 2 - 1})
      = bij_betw ((Inr :: int \<Rightarrow> fault + int) \<circ> (\<lambda>(a, b). through_slot P a b)) ?A
          (Inr ` {0..P * (P - 1) div 2 - 1})"
    by (rule bij_betw_cong) (auto simp: getThrough_index_valid assms(2))
  ultimately show ?thesis by simp
qed

text \<open>A valid pair is looked up at its index, in a table of the full size.\<close>

lemma getThrough_valid:
  fixes cset :: "'f CoefficientSet"
  assumes "1 \<le> a" "a < b" "b \<le> ports cset" "ports cset \<le> 65536"
    and "length (throughs cset) = nat (ports cset * (ports cset - 1) div 2)"
  shows "getThrough cset a b = Inr (Some (throughs cset ! nat (through_slot (ports cset) a b)))"
  using assms through_slot_range[of a b "ports cset"] getThrough_index_valid[of a b "ports cset"]
  by (simp add: getThrough_def)

text \<open>The guard of \<^verbatim>\<open>getThrough\<close>: a pair with a port above the port count, or whose first
  port is not below the second, is answered by the null pointer.\<close>

lemma getThrough_guard:
  "a > ports cset \<or> b > ports cset \<or> a \<ge> b \<Longrightarrow> getThrough cset a b = Inr None"
  by (simp add: getThrough_def)

text \<open>With 65537 ports the index of the last pair is \<open>2147516415\<close>, above the largest
  \<^verbatim>\<open>int\<close>.\<close>

lemma through_slot_65537: "through_slot 65537 65536 65537 = 2147516415"
proof -
  have "2 * row_offset 65537 65536 = (65536 - 1) * (2 * 65537 - 65536)"
    by (rule row_offset_closed) simp
  then show ?thesis by (simp add: through_slot_def)
qed

lemma getThrough_index_65537: "getThrough_index 65537 65536 65537 = Inl IntOverflow"
  using getThrough_index_checked[of 65536 65537 65537]
  by (simp add: through_slot_65537 int_ok_def)

lemma getThrough_65537:
  fixes cset :: "'f CoefficientSet"
  assumes "ports cset = 65537"
  shows "getThrough cset 65536 65537 = Inl IntOverflow"
  using assms by (simp add: getThrough_def getThrough_index_65537)

text \<open>Claim C2, amended. For a port count \<open>P\<close> from 1 to 65536 and every pair \<open>(a, b)\<close> with
  \<open>1 \<le> a < b \<le> P\<close>, the index that \<^verbatim>\<open>getThrough\<close> computes is
  \<open>(\<Sum>k = 1..a - 1. P - k) + (b - a - 1)\<close>, it is the index at which a set with \<open>P\<close> ports and
  \<open>P * (P - 1) / 2\<close> through coefficients is read, and the index is a bijection from these
  pairs onto \<open>{0, \<dots>, P * (P - 1) / 2 - 1}\<close>. (From 65537 ports on the index of the last pairs
  does not fit the \<^verbatim>\<open>int\<close> that holds it.)\<close>

theorem getThrough_index_formula_bijection:
  assumes "1 \<le> P" "P \<le> 65536"
  shows "(\<forall>a b. 1 \<le> a \<and> a < b \<and> b \<le> P \<longrightarrow>
            getThrough_index P a b = Inr ((\<Sum>k = 1..a - 1. P - k) + (b - a - 1)))
       \<and> (\<forall>(cset::'f CoefficientSet) a b.
              ports cset = P \<and> length (throughs cset) = nat (P * (P - 1) div 2)
              \<and> 1 \<le> a \<and> a < b \<and> b \<le> P \<longrightarrow>
            getThrough cset a b
              = Inr (Some (throughs cset ! nat ((\<Sum>k = 1..a - 1. P - k) + (b - a - 1)))))
       \<and> bij_betw (\<lambda>(a, b). getThrough_index P a b) {(a, b). 1 \<le> a \<and> a < b \<and> b \<le> P}
           (Inr ` {0..P * (P - 1) div 2 - 1})"
proof (intro conjI allI impI)
  fix a b assume "1 \<le> a \<and> a < b \<and> b \<le> P"
  then show "getThrough_index P a b = Inr ((\<Sum>k = 1..a - 1. P - k) + (b - a - 1))"
    using assms(2) by (simp add: getThrough_index_valid through_slot_def row_offset_def)
next
  fix cset :: "'f CoefficientSet" and a b
  assume h: "ports cset = P \<and> length (throughs cset) = nat (P * (P - 1) div 2)
    \<and> 1 \<le> a \<and> a < b \<and> b \<le> P"
  then have "getThrough cset a b
      = Inr (Some (throughs cset ! nat (through_slot (ports cset) a b)))"
    using assms(2) by (intro getThrough_valid) auto
  with h show "getThrough cset a b
      = Inr (Some (throughs cset ! nat ((\<Sum>k = 1..a - 1. P - k) + (b - a - 1))))"
    by (simp add: through_slot_def row_offset_def)
next
  show "bij_betw (\<lambda>(a, b). getThrough_index P a b) {(a, b). 1 \<le> a \<and> a < b \<and> b \<le> P}
          (Inr ` {0..P * (P - 1) div 2 - 1})"
    using assms by (rule getThrough_index_bij)
qed

theorem getThrough_index_formula_bijection_witness:
  "getThrough_index 3 2 3 = Inr 2
   \<and> (\<forall>c12 c13 c23.
        getThrough \<lparr>name = ''FACTORY'', ports = 3, opens = [], shorts = [], loads = [],
          throughs = [c12, c13, c23]\<rparr> 2 3 = Inr (Some c23))
   \<and> bij_betw (\<lambda>(a, b). getThrough_index 3 a b) {(a, b). 1 \<le> a \<and> a < b \<and> b \<le> 3}
        (Inr ` {0..2})
   \<and> getThrough_index 65536 65535 65536 = Inr 2147450879"
proof -
  have s: "(\<Sum>k = 1..(1::int). 3 - k) = 2"
    by simp
  have "2 * row_offset 65536 65535 = (65535 - 1) * (2 * 65536 - 65535)"
    by (rule row_offset_closed) simp
  then have big: "(\<Sum>k = 1..(65534::int). 65536 - k) = 2147450879"
    by (simp add: row_offset_def)
  have "getThrough_index 65536 65535 65536 = Inr 2147450879"
    using getThrough_index_formula_bijection[of 65536, THEN conjunct1] big by simp
  moreover have "getThrough_index 3 2 3 = Inr 2"
    using getThrough_index_formula_bijection[of 3, THEN conjunct1] s by simp
  moreover have "\<forall>c12 c13 c23.
        getThrough \<lparr>name = ''FACTORY'', ports = 3, opens = [], shorts = [], loads = [],
          throughs = [c12, c13, c23]\<rparr> 2 3 = Inr (Some c23)"
  proof (intro allI)
    fix c12 c13 c23
    show "getThrough \<lparr>name = ''FACTORY'', ports = 3, opens = [], shorts = [], loads = [],
          throughs = [c12, c13, c23]\<rparr> 2 3 = Inr (Some c23)"
      using getThrough_index_formula_bijection[of 3, THEN conjunct2, THEN conjunct1, rule_format,
          of "\<lparr>name = ''FACTORY'', ports = 3, opens = [], shorts = [], loads = [],
          throughs = [c12, c13, c23]\<rparr>" 2 3] s
      by (simp del: sum.cl_ivl_Suc)
  qed
  moreover have "bij_betw (\<lambda>(a, b). getThrough_index 3 a b)
      {(a, b). 1 \<le> a \<and> a < b \<and> b \<le> 3} (Inr ` {0..2})"
    using getThrough_index_formula_bijection[of 3, THEN conjunct2, THEN conjunct2] by simp
  ultimately show ?thesis by blast
qed

text \<open>Claim C2 as stated fails: with 65537 ports the index of the pair \<open>(65536, 65537)\<close> is
  \<open>2147516415\<close> by the formula; the additions of the loop leave the range of \<^verbatim>\<open>int\<close>, and the
  lookup of this pair has no defined result whatever the table holds.\<close>

theorem getThrough_index_overflows:
  "through_slot 65537 65536 65537 = 2147516415
   \<and> \<not> int_ok 2147516415
   \<and> getThrough_index 65537 65536 65537 = Inl IntOverflow
   \<and> (\<forall>ths. getThrough \<lparr>name = ''FACTORY'', ports = 65537, opens = [], shorts = [], loads = [],
          throughs = ths\<rparr> 65536 65537 = Inl IntOverflow)"
  by (simp add: through_slot_65537 getThrough_index_65537 getThrough_65537 int_ok_def)

text \<open>Claim C3 (not met by the code). The guard of \<^verbatim>\<open>getThrough\<close> has no lower bound for
  \<^verbatim>\<open>port1\<close>. With two ports and one through coefficient, the pair \<open>(0, 1)\<close> is answered by the
  coefficient of the pair \<open>(1, 2)\<close> instead of the null pointer, and the pair \<open>(-1, 2)\<close> reads
  \<^verbatim>\<open>throughs[2]\<close>, outside the vector.\<close>

theorem getThrough_port1_below_1:
  "getThrough \<lparr>name = ''FACTORY'', ports = 2, opens = [], shorts = [], loads = [],
      throughs = [c]\<rparr> 0 1 = Inr (Some c)
   \<and> getThrough \<lparr>name = ''FACTORY'', ports = 2, opens = [], shorts = [], loads = [],
      throughs = [c]\<rparr> (- 1) 2 = Inl OutOfRangeRead"
  by (simp add: getThrough_def getThrough_index_def getThrough_loop.simps int_ok_def)

subsection \<open>Modified coefficients\<close>

lemma returns_true_iff: "returns_true cs \<longleftrightarrow> (\<exists>c \<in> set cs. modified c)"
  by (induction cs) auto

text \<open>The function answers \<^verbatim>\<open>true\<close> when a coefficient of some set is modified, and has no
  value otherwise; it never answers \<^verbatim>\<open>false\<close>.\<close>

lemma hasModifiedCoefficients_result:
  "hasModifiedCoefficients sets =
     (if \<exists>cset \<in> set sets.
           \<exists>c \<in> set (opens cset @ shorts cset @ loads cset @ throughs cset). modified c
      then Inr True else Inl MissingReturn)"
  by (induction sets) (auto simp: returns_true_iff)

lemma hasModifiedCoefficients_never_false: "hasModifiedCoefficients sets \<noteq> Inr False"
  by (simp add: hasModifiedCoefficients_result)

text \<open>Claim C9 (not met by the code). \<^verbatim>\<open>hasModifiedCoefficients\<close> has no \<^verbatim>\<open>return false\<close>: with
  no set acquired, and with a set none of whose coefficients is modified, control reaches the
  end of the function without a \<^verbatim>\<open>return\<close>, so the call has no defined value.\<close>

theorem hasModifiedCoefficients_no_return:
  "hasModifiedCoefficients [] = Inl MissingReturn
   \<and> hasModifiedCoefficients
       [\<lparr>name = ''FACTORY'', ports = 1,
         opens = [\<lparr>t = Touchstone_new 1, modified = False\<rparr>],
         shorts = [\<lparr>t = Touchstone_new 1, modified = False\<rparr>],
         loads = [\<lparr>t = Touchstone_new 1, modified = False\<rparr>],
         throughs = []\<rparr>] = Inl MissingReturn"
  by simp

subsection \<open>The datapoint of a fetched point\<close>

lemma wire_values_9:
  "wire_values toD [f, r0, i0, r1, i1, r2, i2, r3, i3]
     = [(toD r0, toD i0), (toD r1, toD i1), (toD r2, toD i2), (toD r3, toD i3)]"
  by (simp add: wire_values_def upt_rec)

lemma swap_S21_S12_4: "swap_S21_S12 [z0, z1, z2, z3] = [z0, z2, z1, z3]"
  by (simp add: swap_S21_S12_def)

lemma swap_S21_S12_nth:
  "length zs = 4 \<Longrightarrow> swap_S21_S12 zs = [zs ! 0, zs ! 2, zs ! 1, zs ! 3]"
proof -
  assume "length zs = 4"
  then obtain z0 z1 z2 z3 where "zs = [z0, z1, z2, z3]"
    by (auto simp: length_Suc_conv numeral_eq_Suc)
  then show ?thesis by (simp add: swap_S21_S12_4)
qed

lemma fetch_point_appends:
  assumes "fetch_point ch tot setName pn i (c, st) = Inr (c', st')"
  shows "datapoints (t c') = datapoints (t c) @
     [parse_point ch (fst (Query ch (usb st)
        ('':COEFF:GET? '' @ setName @ '' '' @ pn @ '' '' @ number i)))]"
    and "modified c' = modified c"
  using assms
  by (auto simp: fetch_point_def Let_def AddDatapoint_def split: prod.splits if_splits)

text \<open>With a total other than zero the fetch of a point returns, and what it returns is the
  coefficient with the parsed point at the end of its trace.\<close>

lemma fetch_point_returns:
  assumes "tot \<noteq> 0"
  shows "\<exists>st'. fetch_point ch tot setName pn i (c, st)
     = Inr (c\<lparr>t := (t c)\<lparr>datapoints := datapoints (t c) @
          [parse_point ch (fst (Query ch (usb st)
             ('':COEFF:GET? '' @ setName @ '' '' @ pn @ '' '' @ number i)))]\<rparr>\<rparr>, st')"
  using assms by (simp add: fetch_point_def Let_def AddDatapoint_def split: prod.splits)

lemma fetch_point_zero_total:
  "fetch_point ch 0 setName pn i (c, st) = Inl DivisionByZero"
  by (simp add: fetch_point_def Let_def split: prod.splits)

text \<open>A parameter of one point: the coefficient made for it holds exactly the parsed answer
  to the fetch of point 0, asked of the device as the count query left it.\<close>

lemma createCoefficient_one_point:
  assumes "tot \<noteq> 0"
    and "toInt ch (fst (Query ch (usb st) ('':COEFF:NUM? '' @ setName @ '' '' @ pn))) = 1"
  shows "\<exists>c st'. createCoefficient ch tot setName pn st = Inr (c, st')
     \<and> datapoints (t c) =
         [parse_point ch (fst (Query ch
            (snd (Query ch (usb st) ('':COEFF:NUM? '' @ setName @ '' '' @ pn)))
            ('':COEFF:GET? '' @ setName @ '' '' @ pn @ '' '' @ number 0)))]"
proof -
  obtain resp u where q: "Query ch (usb st) ('':COEFF:NUM? '' @ setName @ '' '' @ pn) = (resp, u)"
    by (cases "Query ch (usb st) ('':COEFF:NUM? '' @ setName @ '' '' @ pn)")
  with assms(2) have one: "toInt ch resp = 1" by simp
  let ?c = "\<lparr>t = Touchstone_new (if endsWith pn ''THROUGH'' then 2 else 1), modified = False\<rparr>"
  obtain st' where f: "fetch_point ch tot setName pn 0 (?c, st\<lparr>usb := u\<rparr>)
     = Inr (?c\<lparr>t := (t ?c)\<lparr>datapoints := datapoints (t ?c) @
          [parse_point ch (fst (Query ch (usb (st\<lparr>usb := u\<rparr>))
             ('':COEFF:GET? '' @ setName @ '' '' @ pn @ '' '' @ number 0)))]\<rparr>\<rparr>, st')"
    using fetch_point_returns[OF assms(1)] by blast
  have "[0..toInt ch resp - 1] = [0]" using one by (simp add: upto.simps)
  then have "createCoefficient ch tot setName pn st
     = Inr (?c\<lparr>t := (t ?c)\<lparr>datapoints := datapoints (t ?c) @
          [parse_point ch (fst (Query ch (usb (st\<lparr>usb := u\<rparr>))
             ('':COEFF:GET? '' @ setName @ '' '' @ pn @ '' '' @ number 0)))]\<rparr>\<rparr>, st')"
    using q f by (simp add: createCoefficient_def Let_def)
  then show ?thesis using q by (simp add: Touchstone_new_def)
qed

text \<open>Claim C8. A response \<open>f,r0,i0,r1,i1,r2,i2,r3,i3\<close> to a point fetch gives the datapoint
  whose frequency is the product in doubles of \<open>f\<close> and \<open>1e9\<close> and whose complex values are
  \<open>(r0,i0), (r2,i2), (r1,i1), (r3,i3)\<close>; in general a point of exactly four complex values
  has its values at positions 1 and 2 swapped, a point of any other number of values keeps
  the wire order, and the frequency is the product in doubles of the first field and
  \<open>1e9\<close>. Whenever the total of points is not zero the fetch of a point returns, with this
  datapoint appended to the trace of the coefficient and nothing else of it changed; and
  the coefficient made for a parameter of one point holds exactly this datapoint.\<close>

theorem wire_order_correction:
  "(split_at CHR '','' pString = [f, r0, i0, r1, i1, r2, i2, r3, i3] \<longrightarrow>
      parse_point ch pString
        = \<lparr>frequency = mul_double ch (toDouble ch f) (double_1e9 ch),
           S = [(toDouble ch r0, toDouble ch i0), (toDouble ch r2, toDouble ch i2),
                (toDouble ch r1, toDouble ch i1), (toDouble ch r3, toDouble ch i3)]\<rparr>)
   \<and> (length (wire_values (toDouble ch) (split_at CHR '','' pString)) = 4 \<longrightarrow>
      S (parse_point ch pString)
        = [wire_values (toDouble ch) (split_at CHR '','' pString) ! 0,
           wire_values (toDouble ch) (split_at CHR '','' pString) ! 2,
           wire_values (toDouble ch) (split_at CHR '','' pString) ! 1,
           wire_values (toDouble ch) (split_at CHR '','' pString) ! 3])
   \<and> (length (wire_values (toDouble ch) (split_at CHR '','' pString)) \<noteq> 4 \<longrightarrow>
      S (parse_point ch pString) = wire_values (toDouble ch) (split_at CHR '','' pString))
   \<and> frequency (parse_point ch pString)
       = mul_double ch (toDouble ch (split_at CHR '','' pString ! 0)) (double_1e9 ch)
   \<and> (tot \<noteq> 0 \<longrightarrow>
       (\<exists>st'. fetch_point ch tot setName pn i (c, st)
          = Inr (c\<lparr>t := (t c)\<lparr>datapoints := datapoints (t c) @
               [parse_point ch (fst (Query ch (usb st)
                  ('':COEFF:GET? '' @ setName @ '' '' @ pn @ '' '' @ number i)))]\<rparr>\<rparr>, st')))
   \<and> (tot \<noteq> 0
        \<and> toInt ch (fst (Query ch (usb st) ('':COEFF:NUM? '' @ setName @ '' '' @ pn))) = 1 \<longrightarrow>
       (\<exists>c1 st'. createCoefficient ch tot setName pn st = Inr (c1, st')
          \<and> datapoints (t c1) =
              [parse_point ch (fst (Query ch
                 (snd (Query ch (usb st) ('':COEFF:NUM? '' @ setName @ '' '' @ pn)))
                 ('':COEFF:GET? '' @ setName @ '' '' @ pn @ '' '' @ number 0)))]))"
proof (intro conjI impI)
  show "parse_point ch pString
        = \<lparr>frequency = mul_double ch (toDouble ch f) (double_1e9 ch),
           S = [(toDouble ch r0, toDouble ch i0), (toDouble ch r2, toDouble ch i2),
                (toDouble ch r1, toDouble ch i1), (toDouble ch r3, toDouble ch i3)]\<rparr>"
    if "split_at CHR '','' pString = [f, r0, i0, r1, i1, r2, i2, r3, i3]"
    using that by (simp add: parse_point_def Let_def wire_values_9 swap_S21_S12_4)
  show "S (parse_point ch pString)
        = [wire_values (toDouble ch) (split_at CHR '','' pString) ! 0,
           wire_values (toDouble ch) (split_at CHR '','' pString) ! 2,
           wire_values (toDouble ch) (split_at CHR '','' pString) ! 1,
           wire_values (toDouble ch) (split_at CHR '','' pString) ! 3]"
    if "length (wire_values (toDouble ch) (split_at CHR '','' pString)) = 4"
    using that by (simp add: parse_point_def Let_def swap_S21_S12_nth)
  show "S (parse_point ch pString) = wire_values (toDouble ch) (split_at CHR '','' pString)"
    if "length (wire_values (toDouble ch) (split_at CHR '','' pString)) \<noteq> 4"
    using that by (simp add: parse_point_def Let_def swap_S21_S12_def)
  show "frequency (parse_point ch pString)
       = mul_double ch (toDouble ch (split_at CHR '','' pString ! 0)) (double_1e9 ch)"
    by (simp add: parse_point_def Let_def)
  show "\<exists>st'. fetch_point ch tot setName pn i (c, st)
          = Inr (c\<lparr>t := (t c)\<lparr>datapoints := datapoints (t c) @
               [parse_point ch (fst (Query ch (usb st)
                  ('':COEFF:GET? '' @ setName @ '' '' @ pn @ '' '' @ number i)))]\<rparr>\<rparr>, st')"
    if "tot \<noteq> 0"
    using that by (rule fetch_point_returns)
  show "\<exists>c1 st'. createCoefficient ch tot setName pn st = Inr (c1, st')
          \<and> datapoints (t c1) =
              [parse_point ch (fst (Query ch
                 (snd (Query ch (usb st) ('':COEFF:NUM? '' @ setName @ '' '' @ pn)))
                 ('':COEFF:GET? '' @ setName @ '' '' @ pn @ '' '' @ number 0)))]"
    if "tot \<noteq> 0
        \<and> toInt ch (fst (Query ch (usb st) ('':COEFF:NUM? '' @ setName @ '' '' @ pn))) = 1"
    using that createCoefficient_one_point by blast
qed

text \<open>On the simulated device, whose answers are small integers and whose products with
  \<open>1e9\<close> are therefore exact in doubles: the answer \<open>9,2,4,6,8,1,3,5,7\<close> to the fetch of a
  through point is stored as 9 GHz with the values \<open>(2,4), (1,3), (6,8), (5,7)\<close>, the answer
  \<open>9,2,4\<close> to the fetch of a point of a short as \<open>(2,4)\<close>, and the coefficient of the short
  holds that one point.\<close>

theorem wire_order_correction_witness:
  "parse_point (sim_channel ''FACTORY'') ''9,2,4,6,8,1,3,5,7''
     = \<lparr>frequency = 9000000000, S = [(2, 4), (1, 3), (6, 8), (5, 7)]\<rparr>
   \<and> S (parse_point (sim_channel ''FACTORY'') ''9,2,4'') = [(2, 4)]
   \<and> (\<exists>st'. fetch_point (sim_channel ''FACTORY'') 7 ''FACTORY'' ''P12_THROUGH'' 1
         (\<lparr>t = Touchstone_new 2, modified = False\<rparr>, new_session 2)
       = Inr (\<lparr>t = \<lparr>trace_ports = 2, datapoints =
                  [\<lparr>frequency = 9000000000, S = [(2, 4), (1, 3), (6, 8), (5, 7)]\<rparr>]\<rparr>,
               modified = False\<rparr>, st'))
   \<and> (\<exists>c1 st'. createCoefficient (sim_channel ''FACTORY'') 7 ''FACTORY'' ''P1_SHORT''
         (new_session 2) = Inr (c1, st')
       \<and> datapoints (t c1) = [\<lparr>frequency = 9000000000, S = [(2, 4)]\<rparr>])"
proof -
  let ?ch = "sim_channel ''FACTORY''"
  have d: "toDouble ?ch = (\<lambda>s. real (digit_value s))" "mul_double ?ch = (*)"
    "double_1e9 ?ch = 1000000000" "toInt ?ch = (\<lambda>s. int (digit_value s))"
    "Query ?ch = (\<lambda>u q. (sim_response ''FACTORY'' q, u))"
    by (simp_all add: sim_channel_def)
  have 1: "split_at CHR '','' ''9,2,4,6,8,1,3,5,7''
      = [''9'', ''2'', ''4'', ''6'', ''8'', ''1'', ''3'', ''5'', ''7'']"
    by simp
  have 2: "wire_values (toDouble ?ch) (split_at CHR '','' ''9,2,4'') = [(2, 4)]"
    by (simp add: wire_values_def digit_value_def d)
  have p9: "parse_point ?ch ''9,2,4,6,8,1,3,5,7''
     = \<lparr>frequency = 9000000000, S = [(2, 4), (1, 3), (6, 8), (5, 7)]\<rparr>"
    using wire_order_correction[where pString = "''9,2,4,6,8,1,3,5,7''" and ch = ?ch,
        THEN conjunct1] 1
    by (simp add: digit_value_def d)
  have s3: "S (parse_point ?ch ''9,2,4'') = [(2, 4)]"
    using wire_order_correction[where pString = "''9,2,4''" and ch = ?ch,
        THEN conjunct2, THEN conjunct2, THEN conjunct1] 2
    by simp
  have f3: "frequency (parse_point ?ch ''9,2,4'') = 9000000000"
    by (simp add: parse_point_def Let_def d digit_value_def)
  have p3: "parse_point ?ch ''9,2,4'' = \<lparr>frequency = 9000000000, S = [(2, 4)]\<rparr>"
    using s3 f3 by (cases "parse_point ?ch ''9,2,4''") simp
  have n: "number 0 = ''0''" "number 1 = ''1''"
    by code_simp+
  have qt: "sim_response ''FACTORY'' '':COEFF:GET? FACTORY P12_THROUGH 1''
      = ''9,2,4,6,8,1,3,5,7''"
    by code_simp
  have qs: "sim_response ''FACTORY'' '':COEFF:GET? FACTORY P1_SHORT 0'' = ''9,2,4''"
    by code_simp
  have qn: "digit_value (sim_response ''FACTORY'' '':COEFF:NUM? FACTORY P1_SHORT'') = 1"
    by code_simp
  have "\<exists>st'. fetch_point ?ch 7 ''FACTORY'' ''P12_THROUGH'' 1
         (\<lparr>t = Touchstone_new 2, modified = False\<rparr>, new_session 2)
       = Inr (\<lparr>t = \<lparr>trace_ports = 2, datapoints =
                  [\<lparr>frequency = 9000000000, S = [(2, 4), (1, 3), (6, 8), (5, 7)]\<rparr>]\<rparr>,
               modified = False\<rparr>, st')"
    using wire_order_correction[where ch = ?ch and tot = 7 and setName = "''FACTORY''"
        and pn = "''P12_THROUGH''" and i = 1
        and c = "\<lparr>t = Touchstone_new 2, modified = False\<rparr>" and st = "new_session 2",
        THEN conjunct2, THEN conjunct2, THEN conjunct2, THEN conjunct2, THEN conjunct1]
    by (simp add: d n qt p9 Touchstone_new_def)
  moreover have "\<exists>c1 st'. createCoefficient ?ch 7 ''FACTORY'' ''P1_SHORT'' (new_session 2)
         = Inr (c1, st')
       \<and> datapoints (t c1) = [\<lparr>frequency = 9000000000, S = [(2, 4)]\<rparr>]"
    using wire_order_correction[where ch = ?ch and tot = 7 and setName = "''FACTORY''"
        and pn = "''P1_SHORT''" and st = "new_session 2",
        THEN conjunct2, THEN conjunct2, THEN conjunct2, THEN conjunct2, THEN conjunct2]
    by (simp add: d n qn qs p3)
  ultimately show ?thesis using p9 s3 by simp
qed

subsection \<open>Loops\<close>

lemma for_each_append:
  "for_each (xs @ ys) body s =
     (case for_each xs body s of Inl e \<Rightarrow> Inl e | Inr s' \<Rightarrow> for_each ys body s')"
  by (induction xs arbitrary: s) (auto split: sum.splits)

lemma for_each_map: "for_each (map f xs) body s = for_each xs (\<lambda>x. body (f x)) s"
  by (induction xs arbitrary: s) (auto split: sum.splits)

lemma for_each_concat:
  "for_each (concat xss) body s = for_each xss (\<lambda>xs. for_each xs body) s"
  by (induction xss arbitrary: s) (auto simp: for_each_append split: sum.splits)

text \<open>A relation that is reflexive, transitive and holds across every pass holds across the loop.\<close>

lemma for_each_rel:
  assumes step: "\<And>x s s'. body x s = Inr s' \<Longrightarrow> R s s'"
    and refl: "\<And>s. R s s"
    and trans: "\<And>s s' s''. R s s' \<Longrightarrow> R s' s'' \<Longrightarrow> R s s''"
    and run: "for_each xs body s = Inr s'"
  shows "R s s'"
  using run
proof (induction xs arbitrary: s)
  case Nil
  then show ?case by (simp add: refl)
next
  case (Cons x xs)
  then obtain s1 where 1: "body x s = Inr s1" and 2: "for_each xs body s1 = Inr s'"
    by (auto split: sum.splits)
  show ?case using trans[OF step[OF 1] Cons.IH[OF 2]] .
qed

text \<open>A loop whose passes cannot fail under an invariant cannot fail.\<close>

lemma for_each_total:
  assumes step: "\<And>x s. I s \<Longrightarrow> \<exists>s'. body x s = Inr s' \<and> I s'"
    and init: "I s"
  shows "\<exists>s'. for_each xs body s = Inr s' \<and> I s'"
  using init
proof (induction xs arbitrary: s)
  case Nil
  then show ?case by simp
next
  case (Cons x xs)
  from step[OF Cons.prems] obtain s1 where "body x s = Inr s1" "I s1" by blast
  with Cons.IH[of s1] show ?case by simp
qed

lemma for_each_cong_inv:
  assumes eq: "\<And>x s. I s \<Longrightarrow> body x s = body' x s"
    and pres: "\<And>x s s'. I s \<Longrightarrow> body x s = Inr s' \<Longrightarrow> I s'"
    and init: "I s"
  shows "for_each xs body s = for_each xs body' s"
  using init
proof (induction xs arbitrary: s)
  case Nil
  then show ?case by simp
next
  case (Cons x xs)
  show ?case
  proof (cases "body x s")
    case (Inl e)
    then have "body' x s = Inl e" using eq[OF Cons.prems, of x] by simp
    with Inl show ?thesis by simp
  next
    case (Inr s1)
    then have "body' x s = Inr s1" using eq[OF Cons.prems, of x] by simp
    with Inr pres[OF Cons.prems Inr] Cons.IH[of s1] show ?thesis by simp
  qed
qed

subsection \<open>What the download pass leaves alone\<close>

lemma fetch_point_frame:
  assumes "fetch_point ch tot setName pn i (c, st) = Inr (c', st')"
  shows "numPorts st' = numPorts st \<and> coeffSets st' = coeffSets st"
  using assms by (auto simp: fetch_point_def Let_def split: prod.splits if_splits)

lemma createCoefficient_frame:
  fixes ch :: "('d, 'f) channel"
  assumes "createCoefficient ch tot setName pn st = Inr (c, st')"
  shows "numPorts st' = numPorts st \<and> coeffSets st' = coeffSets st"
proof -
  obtain resp u where q: "Query ch (usb st) ('':COEFF:NUM? '' @ setName @ '' '' @ pn) = (resp, u)"
    by (cases "Query ch (usb st) ('':COEFF:NUM? '' @ setName @ '' '' @ pn)")
  let ?R = "\<lambda>(a :: 'f Coefficient \<times> ('d, 'f) session) (b :: 'f Coefficient \<times> ('d, 'f) session).
     numPorts (snd b) = numPorts (snd a) \<and> coeffSets (snd b) = coeffSets (snd a)"
  have "?R (\<lparr>t = Touchstone_new (if endsWith pn ''THROUGH'' then 2 else 1), modified = False\<rparr>,
      st\<lparr>usb := u\<rparr>) (c, st')"
  proof (rule for_each_rel[where R = ?R and body = "fetch_point ch tot setName pn"])
    show "for_each [0..toInt ch resp - 1] (fetch_point ch tot setName pn)
        (\<lparr>t = Touchstone_new (if endsWith pn ''THROUGH'' then 2 else 1), modified = False\<rparr>,
         st\<lparr>usb := u\<rparr>) = Inr (c, st')"
      using assms q by (simp add: createCoefficient_def Let_def)
  qed (auto dest: fetch_point_frame)
  then show ?thesis by simp
qed

lemma create_store_frame:
  assumes "create_store ch tot nm p (cset, st) = Inr (cset', st')"
  shows "numPorts st' = numPorts st \<and> coeffSets st' = coeffSets st"
  using assms
  by (auto simp: create_store_def split: sum.splits dest: createCoefficient_frame)

subsection \<open>The download of a set, parameter by parameter\<close>

lemma read_through_create_store:
  "read_through ch tot nm i j = create_store ch tot nm (P_THROUGH i j)"
  by (auto simp: read_through_def create_store_def fun_eq_iff split: sum.splits)

lemma read_through_eta:
  "read_through ch tot nm i = (\<lambda>j. create_store ch tot nm (P_THROUGH i j))"
  by (rule ext) (rule read_through_create_store)

lemma read_port_flat:
  "read_port ch tot nm i (cset, st)
     = for_each (port_params (numPorts st) i) (create_store ch tot nm) (cset, st)"
proof -
  have 1: "for_each (port_params (numPorts st) i) (create_store ch tot nm) (cset, st)
     = (case create_store ch tot nm (P_OPEN i) (cset, st) of Inl e \<Rightarrow> Inl e | Inr s1 \<Rightarrow>
       (case create_store ch tot nm (P_SHORT i) s1 of Inl e \<Rightarrow> Inl e | Inr s2 \<Rightarrow>
       (case create_store ch tot nm (P_LOAD i) s2 of Inl e \<Rightarrow> Inl e | Inr s3 \<Rightarrow>
          for_each [i + 1..numPorts st] (read_through ch tot nm i) s3)))"
    by (simp add: port_params_def for_each_map read_through_eta split: sum.splits)
  show ?thesis
    unfolding 1
    by (simp add: read_port_def create_store_def split: sum.splits prod.splits)
qed

lemma for_each_create_store_numPorts:
  assumes "for_each ps (create_store ch tot nm) (cset, st) = Inr (cset', st')"
  shows "numPorts st' = numPorts st"
proof -
  have "(\<lambda>a b. numPorts (snd b) = numPorts (snd a)) (cset, st) (cset', st')"
    by (rule for_each_rel[where body = "create_store ch tot nm", OF _ _ _ assms])
      (auto dest: create_store_frame)
  then show ?thesis by simp
qed

lemma read_set_flat:
  fixes ch :: "('d, 'f) channel"
  shows "read_set ch tot nm st
     = for_each (set_params (numPorts st)) (create_store ch tot nm)
         (\<lparr>name = nm, ports = numPorts st, opens = [], shorts = [], loads = [], throughs = []\<rparr>, st)"
proof -
  let ?P = "numPorts st"
  let ?I = "\<lambda>s :: 'f CoefficientSet \<times> ('d, 'f) session. numPorts (snd s) = ?P"
  have "for_each [1..?P] (read_port ch tot nm)
          (\<lparr>name = nm, ports = ?P, opens = [], shorts = [], loads = [], throughs = []\<rparr>, st)
      = for_each [1..?P] (\<lambda>i. for_each (port_params ?P i) (create_store ch tot nm))
          (\<lparr>name = nm, ports = ?P, opens = [], shorts = [], loads = [], throughs = []\<rparr>, st)"
  proof (rule for_each_cong_inv[where I = ?I])
    fix i and s :: "'f CoefficientSet \<times> ('d, 'f) session"
    assume "?I s"
    then show "read_port ch tot nm i s = for_each (port_params ?P i) (create_store ch tot nm) s"
      by (cases s) (simp add: read_port_flat)
  next
    fix i and s s' :: "'f CoefficientSet \<times> ('d, 'f) session"
    assume "?I s" "read_port ch tot nm i s = Inr s'"
    then show "?I s'"
      by (cases s; cases s') (auto simp: read_port_flat dest: for_each_create_store_numPorts)
  qed simp
  then show ?thesis
    by (simp add: read_set_def set_params_def for_each_concat for_each_map)
qed

lemma throughs_store:
  "throughs (store p c cset) = throughs cset @ (if is_through p then [c] else [])"
  by (cases p) simp_all

lemma name_ports_store: "name (store p c cset) = name cset \<and> ports (store p c cset) = ports cset"
  by (cases p) simp_all

lemma for_each_create_store_create_all:
  assumes "for_each ps (create_store ch tot nm) (cset, st) = Inr (cset', st')"
  shows "\<exists>cs. create_all ch tot nm ps st = Inr (cs, st') \<and> length cs = length ps
     \<and> throughs cset' = throughs cset @ map snd (filter (\<lambda>z. is_through (fst z)) (zip ps cs))
     \<and> name cset' = name cset \<and> ports cset' = ports cset"
  using assms
proof (induction ps arbitrary: cset st)
  case Nil
  then show ?case by simp
next
  case (Cons p ps)
  from Cons.prems obtain s1 where
    a: "create_store ch tot nm p (cset, st) = Inr s1" and
    b: "for_each ps (create_store ch tot nm) s1 = Inr (cset', st')"
    by (auto split: sum.splits)
  from a obtain c st1 where
    1: "createCoefficient ch tot nm (paramName p) st = Inr (c, st1)" and
    s1: "s1 = (store p c cset, st1)"
    by (auto simp: create_store_def split: sum.splits)
  have 2: "for_each ps (create_store ch tot nm) (store p c cset, st1) = Inr (cset', st')"
    using b s1 by simp
  from Cons.IH[OF 2] obtain cs where cs: "create_all ch tot nm ps st1 = Inr (cs, st')"
    "length cs = length ps"
    "throughs cset' = throughs (store p c cset) @ map snd (filter (\<lambda>z. is_through (fst z)) (zip ps cs))"
    "name cset' = name (store p c cset)" "ports cset' = ports (store p c cset)"
    by blast
  have "create_all ch tot nm (p # ps) st = Inr (c # cs, st')"
    using 1 cs(1) by simp
  moreover have "throughs cset'
      = throughs cset @ map snd (filter (\<lambda>z. is_through (fst z)) (zip (p # ps) (c # cs)))"
    using cs(3) by (simp add: throughs_store)
  ultimately show ?case
    using cs(2,4,5) name_ports_store[of p c cset] by (intro exI[of _ "c # cs"]) simp
qed

subsection \<open>The order of the through coefficients\<close>

lemma filter_is_through_port_params:
  "filter is_through (port_params P i) = map (\<lambda>(i, j). P_THROUGH i j) (map (Pair i) [i + 1..P])"
  by (simp add: port_params_def filter_map comp_def)

lemma filter_is_through_set_params:
  "filter is_through (set_params P) = map (\<lambda>(i, j). P_THROUGH i j) (through_pairs P)"
  by (simp add: set_params_def through_pairs_def filter_concat map_concat comp_def
      filter_is_through_port_params)

lemma length_rows_before:
  assumes "1 \<le> a" "a \<le> P + 1"
  shows "int (length (concat (map (\<lambda>i. map (Pair i) [i + 1..P]) [1..a - 1]))) = row_offset P a"
  using assms
proof (induction a rule: int_ge_induct)
  case base
  show ?case by (simp add: row_offset_1)
next
  case (step i)
  have "[1..i + 1 - 1] = [1..i - 1] @ [i]"
    using step(1) upto_rec2[of 1 i] by simp
  then show ?case
    using step by (simp add: row_offset_step)
qed

lemma through_pairs_nth:
  assumes "1 \<le> a" "a < b" "b \<le> P"
  shows "nat (through_slot P a b) < length (through_pairs P)"
    and "through_pairs P ! nat (through_slot P a b) = (a, b)"
proof -
  let ?row = "\<lambda>i. map (Pair i) [i + 1..P]"
  have split: "[1..P] = [1..a - 1] @ a # [a + 1..P]"
    using assms upto_split3[of 1 a P] by simp
  have tp: "through_pairs P = concat (map ?row [1..a - 1]) @ ?row a @ concat (map ?row [a + 1..P])"
    unfolding through_pairs_def by (subst split) simp
  have len: "int (length (concat (map ?row [1..a - 1]))) = row_offset P a"
    using assms by (intro length_rows_before) auto
  define k where "k = nat (b - a - 1)"
  have idx: "nat (through_slot P a b) = length (concat (map ?row [1..a - 1])) + k"
    using assms len[symmetric] by (simp add: through_slot_def k_def nat_add_distrib)
  have k: "k < length (?row a)" using assms by (simp add: k_def)
  show "nat (through_slot P a b) < length (through_pairs P)"
    unfolding tp idx using k by simp
  have "through_pairs P ! nat (through_slot P a b) = ?row a ! k"
    unfolding tp idx using k by (simp add: nth_append)
  also have "\<dots> = (a, b)"
    using assms k by (simp add: k_def)
  finally show "through_pairs P ! nat (through_slot P a b) = (a, b)" .
qed

lemma distinct_port_params: "distinct (port_params P i)"
  by (auto simp: port_params_def distinct_map inj_on_def)

lemma port_params_disjoint: "i \<noteq> j \<Longrightarrow> set (port_params P i) \<inter> set (port_params P j) = {}"
  by (auto simp: port_params_def)

lemma port_params_inj: "port_params P i = port_params P j \<Longrightarrow> i = j"
  by (simp add: port_params_def)

lemma distinct_set_params: "distinct (set_params P)"
  unfolding set_params_def
proof (rule distinct_concat)
  show "distinct (map (port_params P) [1..P])"
    by (auto simp: distinct_map inj_on_def dest: port_params_inj)
next
  fix ys assume "ys \<in> set (map (port_params P) [1..P])"
  then show "distinct ys" by (auto simp: distinct_port_params)
next
  fix ys zs
  assume "ys \<in> set (map (port_params P) [1..P])" "zs \<in> set (map (port_params P) [1..P])"
    "ys \<noteq> zs"
  then obtain i j where "ys = port_params P i" "zs = port_params P j" "i \<noteq> j" by auto
  then show "set ys \<inter> set zs = {}" using port_params_disjoint by simp
qed

lemma read_set_getThrough:
  assumes run: "read_set ch tot nm st = Inr (cset, st')"
    and ab: "1 \<le> a" "a < b" "b \<le> numPorts st"
    and bound: "numPorts st \<le> 65536"
  shows "\<exists>cs k. create_all ch tot nm (set_params (numPorts st)) st = Inr (cs, st')
     \<and> length cs = length (set_params (numPorts st)) \<and> k < length cs
     \<and> set_params (numPorts st) ! k = P_THROUGH a b
     \<and> getThrough cset a b = Inr (Some (cs ! k))"
proof -
  let ?P = "numPorts st"
  let ?ps = "set_params ?P"
  from run[unfolded read_set_flat] for_each_create_store_create_all
  obtain cs where cs: "create_all ch tot nm ?ps st = Inr (cs, st')" "length cs = length ?ps"
    and thr: "throughs cset = map snd (filter (\<lambda>z. is_through (fst z)) (zip ?ps cs))"
    and P: "ports cset = ?P"
    by fastforce
  let ?F = "filter (\<lambda>z. is_through (fst z)) (zip ?ps cs)"
  let ?k = "nat (through_slot ?P a b)"
  have "map fst ?F = filter is_through (map fst (zip ?ps cs))"
    by (simp add: filter_map comp_def)
  also have "\<dots> = map (\<lambda>(i, j). P_THROUGH i j) (through_pairs ?P)"
    using cs(2) by (simp add: filter_is_through_set_params)
  finally have fstF: "map fst ?F = map (\<lambda>(i, j). P_THROUGH i j) (through_pairs ?P)" .
  then have lenF: "length ?F = length (through_pairs ?P)"
    by (metis length_map)
  have k: "?k < length ?F"
    using through_pairs_nth(1)[OF ab] lenF by simp
  have "fst (?F ! ?k) = map fst ?F ! ?k"
    using k by simp
  also have "\<dots> = P_THROUGH a b"
    unfolding fstF using through_pairs_nth[OF ab] by simp
  finally have fk: "fst (?F ! ?k) = P_THROUGH a b" .
  have sk: "snd (?F ! ?k) = throughs cset ! ?k"
    using k by (simp add: thr)
  have "?F ! ?k \<in> set (zip ?ps cs)"
    using k nth_mem[of ?k ?F] by (metis filter_is_subset subsetD)
  then obtain j where j: "j < length (zip ?ps cs)" "zip ?ps cs ! j = ?F ! ?k"
    by (auto simp: in_set_conv_nth)
  then have pj: "?ps ! j = P_THROUGH a b" and cj: "cs ! j = throughs cset ! ?k" and jl: "j < length cs"
    using fk sk cs(2) by (auto simp: prod_eq_iff)
  have "getThrough cset a b = Inr (Some (throughs cset ! ?k))"
    using ab P k through_slot_range(1)[OF ab] thr getThrough_index_valid[OF ab bound]
    by (simp add: getThrough_def)
  with cs pj cj jl show ?thesis by auto
qed

lemma read_set_frame:
  fixes ch :: "('d, 'f) channel"
  assumes "read_set ch tot nm st = Inr (cset, st')"
  shows "numPorts st' = numPorts st" and "coeffSets st' = coeffSets st" and "name cset = nm"
    and "ports cset = numPorts st"
proof -
  let ?R = "\<lambda>(a :: 'f CoefficientSet \<times> ('d, 'f) session) (b :: 'f CoefficientSet \<times> ('d, 'f) session).
     numPorts (snd b) = numPorts (snd a) \<and> coeffSets (snd b) = coeffSets (snd a)"
  have "?R (\<lparr>name = nm, ports = numPorts st, opens = [], shorts = [], loads = [], throughs = []\<rparr>, st)
      (cset, st')"
    by (rule for_each_rel[where body = "create_store ch tot nm", OF _ _ _ assms[unfolded read_set_flat]])
      (auto dest: create_store_frame)
  then show "numPorts st' = numPorts st" and "coeffSets st' = coeffSets st" by simp_all
  from assms[unfolded read_set_flat] for_each_create_store_create_all
  show "name cset = nm" and "ports cset = numPorts st" by fastforce+
qed

subsection \<open>The thread\<close>

lemma updateCoefficientSetsThread_abort:
  assumes "\<not> startsWith (fst (Query ch (usb st) '':COEFF:LIST?'')) ''FACTORY''"
  shows "updateCoefficientSetsThread ch st
     = Inr (st\<lparr>usb := snd (Query ch (usb st) '':COEFF:LIST?''),
               emitted := emitted st @ [updateCoefficientsDone]\<rparr>)"
proof -
  obtain resp u where "Query ch (usb st) '':COEFF:LIST?'' = (resp, u)"
    by (cases "Query ch (usb st) '':COEFF:LIST?''")
  with assms show ?thesis by (simp add: updateCoefficientSetsThread_def)
qed

lemma updateCoefficientSetsThread_download:
  assumes "startsWith (fst (Query ch (usb st) '':COEFF:LIST?'')) ''FACTORY''"
  shows "updateCoefficientSetsThread ch st
     = (case thread_start ch st of
          (coeffList, tot, st0) \<Rightarrow>
            (case for_each coeffList (download_set ch tot) st0 of
               Inl e \<Rightarrow> Inl e
             | Inr st' \<Rightarrow> Inr (st'\<lparr>emitted := emitted st' @ [updateCoefficientsDone]\<rparr>)))"
proof -
  obtain resp u where "Query ch (usb st) '':COEFF:LIST?'' = (resp, u)"
    by (cases "Query ch (usb st) '':COEFF:LIST?''")
  with assms show ?thesis
    by (simp add: updateCoefficientSetsThread_def thread_start_def Let_def split: prod.splits)
qed

lemma thread_start_session:
  assumes "thread_start ch st = (coeffList, tot, st0)"
  shows "numPorts st0 = numPorts st" "coeffSets st0 = coeffSets st" "emitted st0 = emitted st"
    "readPoints st0 = 0" "lastPercentage st0 = 0"
  using assms by (auto simp: thread_start_def Let_def split: prod.splits)

lemma download_set_Inr:
  assumes "download_set ch tot nm st = Inr st'"
  obtains cset st1 where "read_set ch tot nm st = Inr (cset, st1)"
    and "st' = st1\<lparr>coeffSets := coeffSets st @ [cset]\<rparr>"
    and "numPorts st' = numPorts st" and "name cset = nm"
proof -
  from assms obtain cset st1 where r: "read_set ch tot nm st = Inr (cset, st1)"
    and s: "st' = st1\<lparr>coeffSets := coeffSets st1 @ [cset]\<rparr>"
    by (auto simp: download_set_def split: sum.splits)
  from read_set_frame[OF r] s r that show ?thesis by simp
qed

text \<open>Every pass through the download loop appends one set.\<close>

lemma download_loop_appends:
  assumes "for_each nms (download_set ch tot) st = Inr st'"
  shows "\<exists>new. coeffSets st' = coeffSets st @ new \<and> length new = length nms"
  using assms
proof (induction nms arbitrary: st)
  case Nil
  then show ?case by simp
next
  case (Cons nm nms)
  then obtain s1 where 1: "download_set ch tot nm st = Inr s1"
    and 2: "for_each nms (download_set ch tot) s1 = Inr st'"
    by (auto split: sum.splits)
  from 1 obtain cset where "coeffSets s1 = coeffSets st @ [cset]"
    by (auto elim!: download_set_Inr)
  with Cons.IH[OF 2] show ?case
    by (auto intro: exI[of _ "cset # _"])
qed

lemma download_loop_prefix:
  assumes run: "for_each nms (download_set ch tot) st = Inr st'" and k: "k \<le> length nms"
  shows "\<exists>sk. for_each (take k nms) (download_set ch tot) st = Inr sk
     \<and> coeffSets sk = take (length (coeffSets st) + k) (coeffSets st')"
proof -
  have "for_each (take k nms @ drop k nms) (download_set ch tot) st = Inr st'"
    using run by simp
  then obtain sk where 1: "for_each (take k nms) (download_set ch tot) st = Inr sk"
    and 2: "for_each (drop k nms) (download_set ch tot) sk = Inr st'"
    unfolding for_each_append by (auto split: sum.splits)
  from download_loop_appends[OF 1] k obtain new where
    n: "coeffSets sk = coeffSets st @ new" "length new = k"
    by auto
  from download_loop_appends[OF 2] obtain new' where "coeffSets st' = coeffSets sk @ new'"
    by auto
  with n have "coeffSets sk = take (length (coeffSets st) + k) (coeffSets st')"
    by simp
  with 1 show ?thesis by blast
qed

text \<open>Every set that the download loop appends was built by \<open>read_set\<close>.\<close>

lemma download_loop_built:
  assumes "for_each nms (download_set ch tot) st = Inr st'" and "cset \<in> set (coeffSets st')"
  shows "cset \<in> set (coeffSets st)
     \<or> (\<exists>st1 st2. numPorts st1 = numPorts st \<and> read_set ch tot (name cset) st1 = Inr (cset, st2))"
  using assms
proof (induction nms arbitrary: st)
  case Nil
  then show ?case by simp
next
  case (Cons nm nms)
  then obtain s1 where 1: "download_set ch tot nm st = Inr s1"
    and 2: "for_each nms (download_set ch tot) s1 = Inr st'"
    by (auto split: sum.splits)
  from 1 obtain c st1 where c: "read_set ch tot nm st = Inr (c, st1)"
    "s1 = st1\<lparr>coeffSets := coeffSets st @ [c]\<rparr>" "numPorts s1 = numPorts st" "name c = nm"
    by (elim download_set_Inr)
  from Cons.IH[OF 2 Cons.prems(2)] consider "cset \<in> set (coeffSets s1)"
    | st1 st2 where "numPorts st1 = numPorts s1" "read_set ch tot (name cset) st1 = Inr (cset, st2)"
    by blast
  then show ?case
  proof cases
    case 1
    then have "cset \<in> set (coeffSets st) \<or> cset = c" using c(2) by auto
    then show ?thesis using c by auto
  next
    case 2
    then show ?thesis using c(3) by auto
  qed
qed

lemma updateCoefficientSets_abort:
  assumes "\<not> startsWith (fst (Query ch (usb st) '':COEFF:LIST?'')) ''FACTORY''"
  shows "updateCoefficientSets ch st
       = Inr (st\<lparr>usb := snd (Query ch (usb st) '':COEFF:LIST?''), coeffSets := [],
                 emitted := emitted st @ [updateCoefficientsDone]\<rparr>)"
  using assms updateCoefficientSetsThread_abort[of ch "st\<lparr>coeffSets := []\<rparr>"]
  by (simp add: updateCoefficientSets_def)

text \<open>Claim C5, amended. When the response to \<^verbatim>\<open>:COEFF:LIST?\<close> does not begin with
  \<^verbatim>\<open>FACTORY\<close>, the thread sends no further query, records no set, emits the completion
  notification and nothing else, and leaves the collection as it finds it. But
  \<^verbatim>\<open>updateCoefficientSets\<close> clears the collection before it starts the thread: after the run
  the collection is empty, whatever it held before.\<close>

theorem abort_when_not_FACTORY:
  assumes "\<not> startsWith (fst (Query ch (usb st) '':COEFF:LIST?'')) ''FACTORY''"
  shows "updateCoefficientSetsThread ch st
       = Inr (st\<lparr>usb := snd (Query ch (usb st) '':COEFF:LIST?''),
                 emitted := emitted st @ [updateCoefficientsDone]\<rparr>)
     \<and> updateCoefficientSets ch st
       = Inr (st\<lparr>usb := snd (Query ch (usb st) '':COEFF:LIST?''), coeffSets := [],
                 emitted := emitted st @ [updateCoefficientsDone]\<rparr>)"
  using updateCoefficientSetsThread_abort[OF assms] updateCoefficientSets_abort[OF assms]
  by simp

theorem abort_when_not_FACTORY_witness:
  "updateCoefficientSetsThread (sim_channel ''NOTREADY'') held_session
       = Inr (held_session\<lparr>emitted := [updateCoefficientsDone]\<rparr>)
   \<and> updateCoefficientSets (sim_channel ''NOTREADY'') held_session
       = Inr (held_session\<lparr>coeffSets := [], emitted := [updateCoefficientsDone]\<rparr>)"
proof -
  have "\<not> startsWith (fst (Query (sim_channel ''NOTREADY'') (usb held_session) '':COEFF:LIST?''))
      ''FACTORY''"
    by (simp add: sim_channel_def sim_response_def startsWith_def)
  from abort_when_not_FACTORY[OF this] show ?thesis
    by (simp add: sim_channel_def held_session_def new_session_def)
qed

text \<open>Claim C5 as stated fails: a session that holds a set and whose device answers
  \<^verbatim>\<open>NOTREADY\<close> holds no set after the run.\<close>

theorem abort_discards_held_sets:
  "map name (coeffSets held_session) = [''HELD'']
   \<and> (case updateCoefficientSets (sim_channel ''NOTREADY'') held_session of
        Inr st' \<Rightarrow> coeffSets st' = [] \<and> emitted st' = [updateCoefficientsDone]
      | Inl e \<Rightarrow> False)"
  by (simp add: updateCoefficientSets_def updateCoefficientSetsThread_def sim_channel_def
      sim_response_def startsWith_def held_session_def new_session_def)

lemma collection_after_passes:
  assumes run: "updateCoefficientSets ch st = Inr st'" and k: "k \<le> length (coeffSets st')"
  shows "\<exists>sk. after_sets ch st k = Inr sk \<and> coeffSets sk = take k (coeffSets st')"
proof (cases "startsWith (fst (Query ch (usb st) '':COEFF:LIST?'')) ''FACTORY''")
  case False
  from updateCoefficientSets_abort[OF False] run have "coeffSets st' = []" by auto
  with k show ?thesis
    by (auto simp: after_sets_def thread_start_def Let_def split: prod.splits)
next
  case True
  obtain coeffList tot st0 where ts: "thread_start ch (st\<lparr>coeffSets := []\<rparr>) = (coeffList, tot, st0)"
    by (cases "thread_start ch (st\<lparr>coeffSets := []\<rparr>)") auto
  from run True ts obtain s1 where
    1: "for_each coeffList (download_set ch tot) st0 = Inr s1"
    and 2: "st' = s1\<lparr>emitted := emitted s1 @ [updateCoefficientsDone]\<rparr>"
    using updateCoefficientSetsThread_download[of ch "st\<lparr>coeffSets := []\<rparr>"]
    by (auto simp: updateCoefficientSets_def split: sum.splits)
  have e: "coeffSets st0 = []" using thread_start_session(2)[OF ts] by simp
  from download_loop_appends[OF 1] e 2 have "length (coeffSets st') = length coeffList" by auto
  with k download_loop_prefix[OF 1, of k] e 2 ts show ?thesis
    by (auto simp: after_sets_def)
qed

text \<open>Claim C6, amended. \<^verbatim>\<open>updateCoefficientSets\<close> empties the collection when the run starts,
  and the download loop appends each set as soon as it has been read. After \<open>k\<close> passes
  through the loop the collection holds the first \<open>k\<close> sets of the collection that the run
  ends with, and no step within a pass (the fetch of a point, the download of a set before
  it is appended) changes the collection: an observer sees a prefix of the new collection,
  each set in it complete.\<close>

theorem collection_grows_set_by_set:
  assumes run: "updateCoefficientSets ch st = Inr st'" and k: "k \<le> length (coeffSets st')"
  shows "(\<exists>sk. after_sets ch st k = Inr sk \<and> coeffSets sk = take k (coeffSets st'))
     \<and> (\<forall>tot nm pn i c s c' s'.
          fetch_point ch tot nm pn i (c, s) = Inr (c', s') \<longrightarrow> coeffSets s' = coeffSets s)
     \<and> (\<forall>tot nm s cset s'.
          read_set ch tot nm s = Inr (cset, s') \<longrightarrow> coeffSets s' = coeffSets s)"
  using collection_after_passes[OF run k] fetch_point_frame read_set_frame(2) by blast

subsection \<open>A device without points\<close>

lemma createCoefficient_no_points:
  assumes "toInt ch (fst (Query ch (usb st) ('':COEFF:NUM? '' @ nm @ '' '' @ pn))) = 0"
  shows "\<exists>c u. createCoefficient ch tot nm pn st = Inr (c, st\<lparr>usb := u\<rparr>)"
proof -
  obtain resp u where q: "Query ch (usb st) ('':COEFF:NUM? '' @ nm @ '' '' @ pn) = (resp, u)"
    by (cases "Query ch (usb st) ('':COEFF:NUM? '' @ nm @ '' '' @ pn)")
  with assms have "createCoefficient ch tot nm pn st
      = Inr (\<lparr>t = Touchstone_new (if endsWith pn ''THROUGH'' then 2 else 1), modified = False\<rparr>,
             st\<lparr>usb := u\<rparr>)"
    by (simp add: createCoefficient_def)
  then show ?thesis by blast
qed

lemma read_set_no_points:
  fixes ch :: "('d, 'f) channel"
  assumes zero: "\<forall>u nm p. toInt ch (fst (Query ch u ('':COEFF:NUM? '' @ nm @ '' '' @ p))) = 0"
  shows "\<exists>cset u. read_set ch tot nm st = Inr (cset, st\<lparr>usb := u\<rparr>)"
proof -
  let ?I = "\<lambda>s :: 'f CoefficientSet \<times> ('d, 'f) session. \<exists>u. snd s = st\<lparr>usb := u\<rparr>"
  have "\<exists>s'. for_each (set_params (numPorts st)) (create_store ch tot nm)
       (\<lparr>name = nm, ports = numPorts st, opens = [], shorts = [], loads = [], throughs = []\<rparr>, st)
       = Inr s' \<and> ?I s'"
  proof (rule for_each_total[where I = ?I])
    fix p and s :: "'f CoefficientSet \<times> ('d, 'f) session"
    assume "?I s"
    then obtain cset u where s: "s = (cset, st\<lparr>usb := u\<rparr>)" by (cases s) auto
    from createCoefficient_no_points[of ch "st\<lparr>usb := u\<rparr>" nm "paramName p" tot] zero
    obtain c u' where "createCoefficient ch tot nm (paramName p) (st\<lparr>usb := u\<rparr>)
        = Inr (c, st\<lparr>usb := u'\<rparr>)"
      by auto
    then show "\<exists>s'. create_store ch tot nm p s = Inr s' \<and> ?I s'"
      using s by (auto simp: create_store_def)
  next
    show "?I (\<lparr>name = nm, ports = numPorts st, opens = [], shorts = [], loads = [], throughs = []\<rparr>, st)"
      by (auto intro: exI[of _ "usb st"])
  qed
  then show ?thesis by (auto simp: read_set_flat)
qed

lemma download_loop_no_points:
  fixes ch :: "('d, 'f) channel"
  assumes zero: "\<forall>u nm p. toInt ch (fst (Query ch u ('':COEFF:NUM? '' @ nm @ '' '' @ p))) = 0"
  shows "\<exists>st'. for_each nms (download_set ch tot) st = Inr st' \<and> emitted st' = emitted st"
proof -
  let ?I = "\<lambda>s :: ('d, 'f) session. emitted s = emitted st"
  have "\<exists>s'. for_each nms (download_set ch tot) st = Inr s' \<and> ?I s'"
  proof (rule for_each_total[where I = ?I])
    fix nm and s :: "('d, 'f) session"
    assume "?I s"
    moreover from read_set_no_points[OF zero, of tot nm s]
    obtain cset u where "read_set ch tot nm s = Inr (cset, s\<lparr>usb := u\<rparr>)" by auto
    ultimately show "\<exists>s'. download_set ch tot nm s = Inr s' \<and> ?I s'"
      by (simp add: download_set_def)
  qed simp
  then show ?thesis .
qed

lemma count_points_zero:
  assumes zero: "\<forall>u nm p. toInt ch (fst (Query ch u ('':COEFF:NUM? '' @ nm @ '' '' @ p))) = 0"
    and "fst acc = 0"
  shows "fst (count_points ch nm p acc) = 0"
proof -
  obtain u where acc: "acc = (0, u)" using assms(2) by (cases acc) auto
  obtain resp u' where q: "Query ch u ('':COEFF:NUM? '' @ nm @ '' '' @ p) = (resp, u')"
    by (cases "Query ch u ('':COEFF:NUM? '' @ nm @ '' '' @ p)")
  with zero have "toInt ch resp = 0" by (metis fst_conv)
  with acc q show ?thesis by (simp add: count_points_def to_ulong_def)
qed

lemma prescan_zero:
  assumes zero: "\<forall>u nm p. toInt ch (fst (Query ch u ('':COEFF:NUM? '' @ nm @ '' '' @ p))) = 0"
  shows "fst (prescan ch P coeffList u) = 0"
proof -
  have port: "fst (prescan_port ch P nm i acc) = 0" if "fst acc = 0" for nm i acc
    unfolding prescan_port_def Let_def
    by (rule fold_invariant[where Q = "\<lambda>_. True"])
      (simp_all add: count_points_zero[OF zero] that)
  have set: "fst (fold (prescan_port ch P nm) js acc) = 0" if "fst acc = 0" for nm js acc
    by (rule fold_invariant[where Q = "\<lambda>_. True"]) (simp_all add: port that)
  show ?thesis
    unfolding prescan_def
    by (rule fold_invariant[where Q = "\<lambda>_. True"]) (simp_all add: set)
qed

lemma grand_total_coeffSets: "grand_total ch (st\<lparr>coeffSets := sets\<rparr>) = grand_total ch st"
  by (simp add: grand_total_def thread_start_def Let_def split: prod.splits)

text \<open>A device all of whose point counts are zero: the total of the pre-scan is zero, no point
  is fetched, and the run ends without fault with the completion notification alone.\<close>

lemma no_points_run:
  assumes zero: "\<forall>u nm p. toInt ch (fst (Query ch u ('':COEFF:NUM? '' @ nm @ '' '' @ p))) = 0"
  shows "grand_total ch st = 0
     \<and> (\<exists>st'. updateCoefficientSets ch st = Inr st'
           \<and> emitted st' = emitted st @ [updateCoefficientsDone])"
proof
  show "grand_total ch st = 0"
    using prescan_zero[OF zero]
    by (simp add: grand_total_def thread_start_def Let_def split: prod.splits)
      (metis fst_conv)
next
  let ?st = "st\<lparr>coeffSets := []\<rparr>"
  show "\<exists>st'. updateCoefficientSets ch st = Inr st'
      \<and> emitted st' = emitted st @ [updateCoefficientsDone]"
  proof (cases "startsWith (fst (Query ch (usb st) '':COEFF:LIST?'')) ''FACTORY''")
    case False
    from updateCoefficientSets_abort[OF False] show ?thesis by simp
  next
    case True
    obtain coeffList tot st0 where ts: "thread_start ch ?st = (coeffList, tot, st0)"
      by (cases "thread_start ch ?st") auto
    from download_loop_no_points[OF zero, of coeffList tot st0]
    obtain s1 where "for_each coeffList (download_set ch tot) st0 = Inr s1"
      "emitted s1 = emitted st0"
      by auto
    with True ts thread_start_session(3)[OF ts] show ?thesis
      using updateCoefficientSetsThread_download[of ch ?st]
      by (simp add: updateCoefficientSets_def)
  qed
qed

text \<open>Claim C7 (not met by the code). The code has no guard on a total of zero: the fetch
  of a point divides by the total whatever it is, so with a total of zero every fetched
  point is a division by zero.
  Two runs whose pre-scan gives the total zero and which then fetch a point: on a device
  that reports no points during the pre-scan and one point per coefficient afterwards, and
  on a device without a state whose counts \<open>-1\<close> for the open and \<open>1\<close> for the short cancel
  in the total. Neither run reaches the completion notification.\<close>

theorem zero_total_divides_by_zero:
  "fetch_point ch 0 setName pn i (c, st) = Inl DivisionByZero
   \<and> grand_total late_channel late_session = 0
   \<and> updateCoefficientSets late_channel late_session = Inl DivisionByZero
   \<and> grand_total signed_channel (new_session 1) = 0
   \<and> updateCoefficientSets signed_channel (new_session 1) = Inl DivisionByZero"
proof -
  have "grand_total late_channel late_session = 0
     \<and> updateCoefficientSets late_channel late_session = Inl DivisionByZero"
    by code_simp
  moreover have "grand_total signed_channel (new_session 1) = 0
     \<and> updateCoefficientSets signed_channel (new_session 1) = Inl DivisionByZero"
    by code_simp
  ultimately show ?thesis
    by (simp add: fetch_point_zero_total)
qed

theorem collection_grows_set_by_set_witness:
  "\<exists>st' sk. updateCoefficientSets (sim_channel ''FACTORY,USER'') held_session = Inr st'
     \<and> length (coeffSets st') = 2
     \<and> after_sets (sim_channel ''FACTORY,USER'') held_session 1 = Inr sk
     \<and> coeffSets sk = take 1 (coeffSets st')"
proof -
  have "case updateCoefficientSets (sim_channel ''FACTORY,USER'') held_session of
          Inr s \<Rightarrow> length (coeffSets s) = 2 | Inl e \<Rightarrow> False"
    by code_simp
  then obtain st' where run: "updateCoefficientSets (sim_channel ''FACTORY,USER'') held_session = Inr st'"
    and len: "length (coeffSets st') = 2"
    by (cases "updateCoefficientSets (sim_channel ''FACTORY,USER'') held_session") auto
  from collection_grows_set_by_set[OF run, of 1, THEN conjunct1] len show ?thesis
    using run by auto
qed

text \<open>Claim C6 as stated fails: in a run that downloads the sets \<^verbatim>\<open>FACTORY\<close> and \<^verbatim>\<open>USER\<close> on a
  session that holds a set, the collection is empty before the first set has been read and
  holds \<^verbatim>\<open>FACTORY\<close> alone after the first pass; neither is the collection held before nor the
  collection the run ends with.\<close>

theorem collection_seen_torn:
  "map name (coeffSets held_session) = [''HELD'']
   \<and> (case after_sets (sim_channel ''FACTORY,USER'') held_session 0 of
        Inr s \<Rightarrow> map name (coeffSets s) = [] | Inl e \<Rightarrow> False)
   \<and> (case after_sets (sim_channel ''FACTORY,USER'') held_session 1 of
        Inr s \<Rightarrow> map name (coeffSets s) = [''FACTORY''] | Inl e \<Rightarrow> False)
   \<and> (case updateCoefficientSets (sim_channel ''FACTORY,USER'') held_session of
        Inr s \<Rightarrow> map name (coeffSets s) = [''FACTORY'', ''USER''] | Inl e \<Rightarrow> False)"
  by code_simp

subsection \<open>Lookup of an acquired through coefficient\<close>

text \<open>Every set of the collection that a run ends with was built by one pass of the download
  loop on a session with the port count of the run, and a run on a listing that starts with
  \<^verbatim>\<open>FACTORY\<close> ends with one set for each name of the listing.\<close>

lemma run_collection_built:
  assumes run: "updateCoefficientSets ch st = Inr st'"
    and cset: "cset \<in> set (coeffSets st')"
  shows "\<exists>tot st1 st2. numPorts st1 = numPorts st
     \<and> read_set ch tot (name cset) st1 = Inr (cset, st2)"
proof (cases "startsWith (fst (Query ch (usb st) '':COEFF:LIST?'')) ''FACTORY''")
  case False
  from updateCoefficientSets_abort[OF False] run have "coeffSets st' = []" by auto
  with cset show ?thesis by simp
next
  case True
  let ?st = "st\<lparr>coeffSets := []\<rparr>"
  obtain coeffList tot st0 where ts: "thread_start ch ?st = (coeffList, tot, st0)"
    by (cases "thread_start ch ?st") auto
  from run True ts obtain s1 where
    1: "for_each coeffList (download_set ch tot) st0 = Inr s1"
    and 2: "st' = s1\<lparr>emitted := emitted s1 @ [updateCoefficientsDone]\<rparr>"
    using updateCoefficientSetsThread_download[of ch ?st]
    by (auto simp: updateCoefficientSets_def split: sum.splits)
  have "cset \<in> set (coeffSets s1)" using cset 2 by simp
  from download_loop_built[OF 1 this] thread_start_session(1,2)[OF ts]
  show ?thesis by auto
qed

lemma run_collection_length:
  assumes run: "updateCoefficientSets ch st = Inr st'"
    and listing: "startsWith (fst (Query ch (usb st) '':COEFF:LIST?'')) ''FACTORY''"
  shows "length (coeffSets st')
     = length (split_at CHR '','' (fst (Query ch (usb st) '':COEFF:LIST?'')))"
proof -
  let ?st = "st\<lparr>coeffSets := []\<rparr>"
  obtain coeffList tot st0 where ts: "thread_start ch ?st = (coeffList, tot, st0)"
    by (cases "thread_start ch ?st") auto
  then have cl: "coeffList = split_at CHR '','' (fst (Query ch (usb st) '':COEFF:LIST?''))"
    by (auto simp: thread_start_def Let_def split: prod.splits)
  from run listing ts obtain s1 where
    1: "for_each coeffList (download_set ch tot) st0 = Inr s1"
    and 2: "st' = s1\<lparr>emitted := emitted s1 @ [updateCoefficientsDone]\<rparr>"
    using updateCoefficientSetsThread_download[of ch ?st]
    by (auto simp: updateCoefficientSets_def split: sum.splits)
  have "coeffSets st0 = []" using thread_start_session(2)[OF ts] by simp
  with download_loop_appends[OF 1] 2 cl show ?thesis by auto
qed

text \<open>Claim C1, amended. After a run of \<^verbatim>\<open>updateCoefficientSets\<close> that ends without fault on a
  device of at most 65536 ports, every set of the collection was built by one pass of the
  download loop, the coefficients of that pass are those of the calls of
  \<^verbatim>\<open>createCoefficient\<close> for the parameters of the set in their order, and for every pair
  \<open>(a, b)\<close> with \<open>1 \<le> a < b \<le> numPorts\<close> the lookup \<^verbatim>\<open>getThrough(a, b)\<close> returns the coefficient
  that the call for the parameter \<^verbatim>\<open>P<a><b>_THROUGH\<close> built. Lemma \<open>distinct_set_params\<close>: no
  parameter is asked for twice.\<close>

theorem getThrough_returns_acquired:
  assumes run: "updateCoefficientSets ch st = Inr st'"
    and cset: "cset \<in> set (coeffSets st')"
    and ab: "1 \<le> a" "a < b" "b \<le> numPorts st"
    and bound: "numPorts st \<le> 65536"
  shows "\<exists>tot st1 st2 cs k.
       numPorts st1 = numPorts st
     \<and> read_set ch tot (name cset) st1 = Inr (cset, st2)
     \<and> create_all ch tot (name cset) (set_params (numPorts st)) st1 = Inr (cs, st2)
     \<and> length cs = length (set_params (numPorts st)) \<and> k < length cs
     \<and> set_params (numPorts st) ! k = P_THROUGH a b
     \<and> getThrough cset a b = Inr (Some (cs ! k))"
proof -
  from run_collection_built[OF run cset]
  obtain tot st1 st2 where b: "numPorts st1 = numPorts st"
    "read_set ch tot (name cset) st1 = Inr (cset, st2)"
    by auto
  from read_set_getThrough[OF b(2), of a b] ab bound b(1) b(2) show ?thesis
    by (metis (no_types, lifting))
qed

text \<open>A run on the device of three ports whose through points tell their pair: the set holds
  the through coefficients of the pairs \<open>(1,2)\<close>, \<open>(1,3)\<close>, \<open>(2,3)\<close> in this order, and the
  lookup of the pair \<open>(2,3)\<close>, whose index the loop of \<^verbatim>\<open>getThrough\<close> computes in one pass,
  returns the coefficient built for \<^verbatim>\<open>P23_THROUGH\<close>: its point has the frequency
  2 GHz and the first value \<open>(3, 0)\<close>.\<close>

theorem getThrough_returns_acquired_witness:
  "\<exists>st' cset tot st1 st2 cs k.
       updateCoefficientSets echo_channel (new_session 3) = Inr st'
     \<and> coeffSets st' = [cset]
     \<and> read_set echo_channel tot ''FACTORY'' st1 = Inr (cset, st2)
     \<and> create_all echo_channel tot ''FACTORY'' (set_params 3) st1 = Inr (cs, st2)
     \<and> set_params 3 ! k = P_THROUGH 2 3
     \<and> getThrough cset 2 3 = Inr (Some (cs ! k))
     \<and> map (\<lambda>p. (frequency p, hd (S p))) (datapoints (t (cs ! k))) = [(2000000000, (3, 0))]
     \<and> map (\<lambda>c. map (\<lambda>p. (frequency p, hd (S p))) (datapoints (t c))) (throughs cset)
         = [[(1000000000, (2, 0))], [(1000000000, (3, 0))], [(2000000000, (3, 0))]]"
proof -
  have "case updateCoefficientSets echo_channel (new_session 3) of
          Inr s \<Rightarrow> (case coeffSets s of
                      [c] \<Rightarrow> name c = ''FACTORY''
                        \<and> map (\<lambda>c. map (\<lambda>p. (frequency p, hd (S p))) (datapoints (t c)))
                            (throughs c)
                          = [[(1000000000, (2, 0))], [(1000000000, (3, 0))],
                             [(2000000000, (3, 0))]]
                        \<and> (case getThrough c 2 3 of
                             Inr (Some x) \<Rightarrow>
                               map (\<lambda>p. (frequency p, hd (S p))) (datapoints (t x))
                                 = [(2000000000, (3, 0))]
                           | _ \<Rightarrow> False)
                    | _ \<Rightarrow> False)
        | Inl e \<Rightarrow> False"
    by code_simp
  then obtain st' cset x where run: "updateCoefficientSets echo_channel (new_session 3) = Inr st'"
    and sets: "coeffSets st' = [cset]" and nm: "name cset = ''FACTORY''"
    and thr: "map (\<lambda>c. map (\<lambda>p. (frequency p, hd (S p))) (datapoints (t c))) (throughs cset)
         = [[(1000000000, (2, 0))], [(1000000000, (3, 0))], [(2000000000, (3, 0))]]"
    and g: "getThrough cset 2 3 = Inr (Some x)"
      "map (\<lambda>p. (frequency p, hd (S p))) (datapoints (t x)) = [(2000000000, (3, 0))]"
    by (auto split: sum.splits list.splits option.splits)
  have n: "numPorts (new_session 3) = 3" by (simp add: new_session_def)
  from getThrough_returns_acquired[OF run, of cset 2 3] sets n nm
  obtain tot st1 st2 cs k where
    "read_set echo_channel tot ''FACTORY'' st1 = Inr (cset, st2)"
    "create_all echo_channel tot ''FACTORY'' (set_params 3) st1 = Inr (cs, st2)"
    "set_params 3 ! k = P_THROUGH 2 3" "getThrough cset 2 3 = Inr (Some (cs ! k))"
    by auto
  with run sets g thr show ?thesis
    by (intro exI[of _ st'] exI[of _ cset] exI[of _ tot] exI[of _ st1] exI[of _ st2]
        exI[of _ cs] exI[of _ k]) simp
qed

text \<open>Claim C1 as stated fails from 65537 ports on. The run on a device of 65537 ports
  without points ends without fault with one set of 65537 ports, and the lookup of its
  pair \<open>(65536, 65537)\<close> overflows the \<^verbatim>\<open>int\<close> index: the sum has passed \<open>2^31 - 1\<close> before the
  loop ends, which is undefined behaviour, and no coefficient is returned.\<close>

theorem getThrough_overflows_after_run:
  "\<exists>st' cset. updateCoefficientSets empty_channel (new_session 65537) = Inr st'
     \<and> coeffSets st' = [cset] \<and> ports cset = 65537
     \<and> getThrough cset 65536 65537 = Inl IntOverflow"
proof -
  have "\<forall>u nm p. toInt empty_channel
      (fst (Query empty_channel u ('':COEFF:NUM? '' @ nm @ '' '' @ p))) = 0"
    by (simp add: empty_channel_def digit_value_def)
  from no_points_run[OF this, of "new_session 65537"]
  obtain st' where run: "updateCoefficientSets empty_channel (new_session 65537) = Inr st'"
    by auto
  have l: "fst (Query empty_channel (usb (new_session 65537)) '':COEFF:LIST?'') = ''FACTORY''"
    by (simp add: empty_channel_def)
  have "startsWith (fst (Query empty_channel (usb (new_session 65537)) '':COEFF:LIST?''))
      ''FACTORY''"
    unfolding l by (simp add: startsWith_def)
  from run_collection_length[OF run this] have "length (coeffSets st') = 1"
    unfolding l by simp
  then obtain cset where sets: "coeffSets st' = [cset]"
    by (cases "coeffSets st'") auto
  then have "cset \<in> set (coeffSets st')" by simp
  from run_collection_built[OF run this] obtain tot st1 st2 where
    "numPorts st1 = numPorts (new_session 65537)"
    "read_set empty_channel tot (name cset) st1 = Inr (cset, st2)"
    by auto
  with read_set_frame(4) have p: "ports cset = 65537"
    by (fastforce simp: new_session_def)
  from getThrough_65537[OF p] run sets p show ?thesis by simp
qed

subsection \<open>Progress\<close>

lemma run_points_add:
  "run_points tot (m + n) s =
     (case run_points tot m s of
        (s1, o1) \<Rightarrow> (case run_points tot n s1 of (s2, o2) \<Rightarrow> (s2, o1 @ o2)))"
proof (induction m arbitrary: s)
  case 0
  show ?case by (simp split: prod.splits)
next
  case (Suc m)
  obtain lp rp where s: "s = (lp, rp)" by (cases s)
  show ?case
    unfolding s by (simp add: Suc Let_def split: prod.splits)
qed

lemma run_points_1:
  "run_points tot (Suc 0) (lp, rp) =
     (if percentage tot (to_ulong (rp + 1)) \<noteq> lp
      then ((percentage tot (to_ulong (rp + 1)), to_ulong (rp + 1)),
            [percentage tot (to_ulong (rp + 1))])
      else ((lp, to_ulong (rp + 1)), []))"
  by (simp add: Let_def)

lemma advance_refl: "advance tot m st m st"
  by (simp add: advance_def)

lemma advance_trans:
  assumes "advance tot m st m' st'" "advance tot m' st' m'' st''"
  shows "advance tot m st m'' st''"
proof -
  from assms(1) obtain o1 where 1: "m \<le> m'"
    "run_points tot (m' - m) (lastPercentage st, readPoints st)
       = ((lastPercentage st', readPoints st'), o1)"
    "emitted st' = emitted st @ map updateCoefficientsPercent o1"
    by (auto simp: advance_def)
  from assms(2) obtain o2 where 2: "m' \<le> m''"
    "run_points tot (m'' - m') (lastPercentage st', readPoints st')
       = ((lastPercentage st'', readPoints st''), o2)"
    "emitted st'' = emitted st' @ map updateCoefficientsPercent o2"
    by (auto simp: advance_def)
  have "m'' - m = (m' - m) + (m'' - m')" using 1(1) 2(1) by simp
  then have "run_points tot (m'' - m) (lastPercentage st, readPoints st)
      = ((lastPercentage st'', readPoints st''), o1 @ o2)"
    using 1(2) 2(2) by (simp add: run_points_add)
  with 1 2 show ?thesis by (simp add: advance_def)
qed

lemma advance_shift: "advance tot m st m' st' \<Longrightarrow> advance tot (m + k) st (m' + k) st'"
  by (simp add: advance_def)

lemma advance_usb: "advance tot m (st\<lparr>usb := u\<rparr>) m' st' = advance tot m st m' st'"
  by (simp add: advance_def)

lemma fetch_point_advance:
  assumes "fetch_point ch tot setName pn i (c, st) = Inr (c', st')"
  shows "advance tot (points_of c) st (points_of c') st'"
proof -
  have p: "points_of c' = Suc (points_of c)"
    using fetch_point_appends(1)[OF assms] by (simp add: points_of_def)
  show ?thesis
    using assms unfolding advance_def p
    by (auto simp: fetch_point_def Let_def split: prod.splits if_splits)
qed

lemma createCoefficient_advance:
  fixes ch :: "('d, 'f) channel"
  assumes "createCoefficient ch tot setName pn st = Inr (c, st')"
  shows "advance tot 0 st (points_of c) st'"
proof -
  obtain resp u where q: "Query ch (usb st) ('':COEFF:NUM? '' @ setName @ '' '' @ pn) = (resp, u)"
    by (cases "Query ch (usb st) ('':COEFF:NUM? '' @ setName @ '' '' @ pn)")
  let ?c0 = "\<lparr>t = Touchstone_new (if endsWith pn ''THROUGH'' then 2 else 1), modified = False\<rparr>"
  let ?R = "\<lambda>(a :: 'f Coefficient \<times> ('d, 'f) session) (b :: 'f Coefficient \<times> ('d, 'f) session).
     advance tot (points_of (fst a)) (snd a) (points_of (fst b)) (snd b)"
  have "?R (?c0, st\<lparr>usb := u\<rparr>) (c, st')"
  proof (rule for_each_rel[where R = ?R and body = "fetch_point ch tot setName pn"])
    show "for_each [0..toInt ch resp - 1] (fetch_point ch tot setName pn) (?c0, st\<lparr>usb := u\<rparr>)
        = Inr (c, st')"
      using assms q by (simp add: createCoefficient_def Let_def)
  next
    fix x and s s' :: "'f Coefficient \<times> ('d, 'f) session"
    assume "fetch_point ch tot setName pn x s = Inr s'"
    then show "?R s s'"
      by (cases s; cases s') (auto dest: fetch_point_advance)
  qed (auto intro: advance_refl advance_trans)
  then show ?thesis
    by (simp add: advance_usb points_of_def Touchstone_new_def)
qed

lemma points_in_store: "points_in (store p c cset) = points_in cset + points_of c"
  by (cases p) (simp_all add: points_in_def)

lemma create_store_advance:
  assumes "create_store ch tot nm p (cset, st) = Inr (cset', st')"
  shows "advance tot (points_in cset) st (points_in cset') st'"
proof -
  from assms obtain c where c: "createCoefficient ch tot nm (paramName p) st = Inr (c, st')"
    and s: "cset' = store p c cset"
    by (auto simp: create_store_def split: sum.splits)
  from advance_shift[OF createCoefficient_advance[OF c], of "points_in cset"]
  show ?thesis by (simp add: s points_in_store add.commute)
qed

lemma read_set_advance:
  fixes ch :: "('d, 'f) channel"
  assumes "read_set ch tot nm st = Inr (cset, st')"
  shows "advance tot 0 st (points_in cset) st'"
proof -
  let ?R = "\<lambda>(a :: 'f CoefficientSet \<times> ('d, 'f) session) (b :: 'f CoefficientSet \<times> ('d, 'f) session).
     advance tot (points_in (fst a)) (snd a) (points_in (fst b)) (snd b)"
  have "?R (\<lparr>name = nm, ports = numPorts st, opens = [], shorts = [], loads = [], throughs = []\<rparr>, st)
      (cset, st')"
  proof (rule for_each_rel[where R = ?R and body = "create_store ch tot nm",
        OF _ _ _ assms[unfolded read_set_flat]])
    fix p and s s' :: "'f CoefficientSet \<times> ('d, 'f) session"
    assume "create_store ch tot nm p s = Inr s'"
    then show "?R s s'"
      by (cases s; cases s') (auto dest: create_store_advance)
  qed (auto intro: advance_refl advance_trans)
  then show ?thesis by (simp add: points_in_def)
qed

lemma advance_coeffSets:
  "advance tot m st m' (st'\<lparr>coeffSets := sets\<rparr>) = advance tot m st m' st'"
  by (simp add: advance_def)

lemma download_set_advance:
  assumes "download_set ch tot nm st = Inr st'"
  shows "advance tot (points_stored (coeffSets st)) st (points_stored (coeffSets st')) st'"
proof -
  from assms obtain cset st1 where r: "read_set ch tot nm st = Inr (cset, st1)"
    and s: "st' = st1\<lparr>coeffSets := coeffSets st @ [cset]\<rparr>"
    by (elim download_set_Inr)
  from advance_shift[OF read_set_advance[OF r], of "points_stored (coeffSets st)"]
  show ?thesis
    by (simp add: s advance_coeffSets points_stored_def add.commute)
qed

lemma download_loop_advance:
  assumes "for_each nms (download_set ch tot) st = Inr st'"
  shows "advance tot (points_stored (coeffSets st)) st (points_stored (coeffSets st')) st'"
  by (rule for_each_rel[where body = "download_set ch tot"
        and R = "\<lambda>a b. advance tot (points_stored (coeffSets a)) a (points_stored (coeffSets b)) b",
        OF _ _ _ assms])
    (auto intro: advance_refl advance_trans download_set_advance)

lemma run_emits_progress:
  assumes run: "updateCoefficientSets ch st = Inr st'"
  shows "emitted st' = emitted st
     @ map updateCoefficientsPercent (progress (grand_total ch st) (points_stored (coeffSets st')))
     @ [updateCoefficientsDone]"
proof (cases "startsWith (fst (Query ch (usb st) '':COEFF:LIST?'')) ''FACTORY''")
  case False
  from updateCoefficientSets_abort[OF False] run show ?thesis
    by (auto simp: points_stored_def progress_def)
next
  case True
  let ?st = "st\<lparr>coeffSets := []\<rparr>"
  obtain coeffList tot st0 where ts: "thread_start ch ?st = (coeffList, tot, st0)"
    by (cases "thread_start ch ?st") auto
  then have tot: "tot = grand_total ch st"
    using grand_total_coeffSets[where ch = ch and st = st and sets = "[]"] by (simp add: grand_total_def)
  from run True ts obtain s1 where
    1: "for_each coeffList (download_set ch tot) st0 = Inr s1"
    and 2: "st' = s1\<lparr>emitted := emitted s1 @ [updateCoefficientsDone]\<rparr>"
    using updateCoefficientSetsThread_download[of ch ?st]
    by (auto simp: updateCoefficientSets_def split: sum.splits)
  from download_loop_advance[OF 1] thread_start_session[OF ts]
  obtain s out where "run_points tot (points_stored (coeffSets s1)) (0, 0) = (s, out)"
    "emitted s1 = emitted st @ map updateCoefficientsPercent out"
    by (auto simp: advance_def points_stored_def)
  then show ?thesis
    by (simp add: 2 tot progress_def)
qed


lemma percentage_exact:
  assumes "0 < tot" "0 \<le> r" "r * 100 < 2 ^ 64" "r * 100 div tot < 2 ^ 31"
  shows "percentage tot r = r * 100 div tot"
proof -
  have 1: "to_ulong (r * 100) = r * 100"
    using assms by (simp add: to_ulong_def)
  have 2: "0 \<le> r * 100 div tot"
    using assms by (simp add: pos_imp_zdiv_nonneg_iff)
  then have "r * 100 div tot mod 2 ^ 32 = r * 100 div tot"
    using assms(4) by simp
  then show ?thesis
    using assms(4) by (simp add: percentage_def 1 to_int_def)
qed

lemma run_points_Suc_exact:
  assumes "0 < tot" "0 \<le> rp" "(rp + int (Suc n)) * 100 < 2 ^ 64"
    "(rp + int (Suc n)) * 100 div tot < 2 ^ 31"
  shows "snd (run_points tot (Suc n) (lp, rp))
       = (if (rp + 1) * 100 div tot \<noteq> lp then [(rp + 1) * 100 div tot] else [])
         @ snd (run_points tot n ((rp + 1) * 100 div tot, rp + 1))"
proof -
  let ?r = "rp + 1"
  have r: "to_ulong ?r = ?r"
    using assms by (simp add: to_ulong_def)
  have le: "?r * 100 \<le> (rp + int (Suc n)) * 100" by simp
  have b1: "?r * 100 < 2 ^ 64" using le assms(3) by linarith
  have "?r * 100 div tot \<le> (rp + int (Suc n)) * 100 div tot"
    using le assms(1) by (intro zdiv_mono1) auto
  then have b2: "?r * 100 div tot < 2 ^ 31" using assms(4) by linarith
  have p: "percentage tot ?r = ?r * 100 div tot"
    using assms(1,2) b1 b2 by (intro percentage_exact) auto
  show ?thesis
    by (cases "?r * 100 div tot = lp") (simp_all add: r p Let_def split: prod.splits)
qed

lemma run_points_filter:
  assumes "0 < tot" "0 \<le> rp" "(rp + int n) * 100 < 2 ^ 64" "(rp + int n) * 100 div tot < 2 ^ 31"
    and "lp = rp * 100 div tot"
  shows "snd (run_points tot n (lp, rp))
       = map (\<lambda>k. k * 100 div tot)
           (filter (\<lambda>k. k * 100 div tot \<noteq> (k - 1) * 100 div tot) [rp + 1..rp + int n])"
  using assms
proof (induction n arbitrary: lp rp)
  case 0
  show ?case by simp
next
  case (Suc n)
  let ?r = "rp + 1"
  let ?f = "\<lambda>k. k * 100 div tot"
  let ?ch = "\<lambda>k. k * 100 div tot \<noteq> (k - 1) * 100 div tot"
  have up: "[rp + 1..rp + int (Suc n)] = ?r # [?r + 1..?r + int n]"
    using upto_rec1[of ?r "rp + int (Suc n)"] by (simp add: add.commute add.left_commute)
  have IH: "snd (run_points tot n (?f ?r, ?r)) = map ?f (filter ?ch [?r + 1..?r + int n])"
    using Suc.prems by (intro Suc.IH) (auto simp: algebra_simps)
  have "snd (run_points tot (Suc n) (lp, rp))
      = (if ?f ?r \<noteq> lp then [?f ?r] else []) @ snd (run_points tot n (?f ?r, ?r))"
    using Suc.prems by (intro run_points_Suc_exact) auto
  also have "\<dots> = (if ?ch ?r then [?f ?r] else []) @ map ?f (filter ?ch [?r + 1..?r + int n])"
    unfolding IH Suc.prems(5) by simp
  also have "\<dots> = map ?f (filter ?ch [rp + 1..rp + int (Suc n)])"
    unfolding up by simp
  finally show ?case .
qed

lemma run_points_sorted:
  assumes "0 < tot" "0 \<le> rp" "(rp + int n) * 100 < 2 ^ 64" "(rp + int n) * 100 div tot < 2 ^ 31"
    and "lp = rp * 100 div tot"
  shows "sorted_wrt (<) (lp # snd (run_points tot n (lp, rp)))"
  using assms
proof (induction n arbitrary: lp rp)
  case 0
  show ?case by simp
next
  case (Suc n)
  let ?r = "rp + 1"
  let ?new = "?r * 100 div tot"
  let ?rest = "snd (run_points tot n (?new, ?r))"
  have IH: "sorted_wrt (<) (?new # ?rest)"
    using Suc.prems by (intro Suc.IH) (auto simp: algebra_simps)
  have eq: "snd (run_points tot (Suc n) (lp, rp)) = (if ?new \<noteq> lp then [?new] else []) @ ?rest"
    using Suc.prems by (intro run_points_Suc_exact) auto
  have mono: "lp \<le> ?new"
    unfolding Suc.prems(5) using Suc.prems(1) by (intro zdiv_mono1) auto
  show ?case
  proof (cases "?new = lp")
    case True
    with IH show ?thesis unfolding eq by simp
  next
    case False
    with mono have "lp < ?new" by simp
    with IH have "sorted_wrt (<) (lp # ?new # ?rest)" by auto
    with False show ?thesis unfolding eq by simp
  qed
qed

lemma progress_exact:
  assumes "0 < tot" "int n * 100 < 2 ^ 64" "int n * 100 div tot < 2 ^ 31"
  shows "progress tot n
       = map (\<lambda>k. k * 100 div tot)
           (filter (\<lambda>k. k * 100 div tot \<noteq> (k - 1) * 100 div tot) [1..int n])"
  using run_points_filter[of tot 0 n 0] assms by (simp add: progress_def)

lemma progress_sorted:
  assumes "0 < tot" "int n * 100 < 2 ^ 64" "int n * 100 div tot < 2 ^ 31"
  shows "sorted_wrt (<) (0 # progress tot n)"
  using run_points_sorted[of tot 0 n 0] assms by (simp add: progress_def)

text \<open>Whatever the percentages are, after a point the last percentage is the percentage of
  that point; so the last point of a run is emitted exactly when its percentage differs from
  that of the point before.\<close>

lemma run_points_state:
  assumes "0 \<le> rp" "rp + int (Suc n) < 2 ^ 64"
  shows "fst (run_points tot (Suc n) (lp, rp))
       = (percentage tot (rp + int (Suc n)), rp + int (Suc n))"
  using assms
proof (induction n arbitrary: lp rp)
  case 0
  then have "to_ulong (rp + 1) = rp + 1" by (simp add: to_ulong_def)
  then show ?case by (simp add: Let_def)
next
  case (Suc n)
  have r: "to_ulong (rp + 1) = rp + 1" using Suc.prems by (simp add: to_ulong_def)
  have IH: "fst (run_points tot (Suc n) (l, rp + 1))
       = (percentage tot (rp + 1 + int (Suc n)), rp + 1 + int (Suc n))" for l
    using Suc.prems by (intro Suc.IH) auto
  have "run_points tot (Suc (Suc n)) (lp, rp) =
     (if percentage tot (rp + 1) \<noteq> lp
      then (case run_points tot (Suc n) (percentage tot (rp + 1), rp + 1) of
              (s', out) \<Rightarrow> (s', percentage tot (rp + 1) # out))
      else run_points tot (Suc n) (lp, rp + 1))"
    by (subst run_points.simps) (simp add: r Let_def)
  then show ?case
    using IH[of lp] IH[of "percentage tot (rp + 1)"]
    by (auto simp: algebra_simps split: prod.splits)
qed

lemma progress_last_point:
  assumes "int (Suc (Suc n)) < 2 ^ 64"
  shows "progress tot (Suc (Suc n))
       = progress tot (Suc n)
         @ (if percentage tot (int (Suc (Suc n))) \<noteq> percentage tot (int (Suc n))
            then [percentage tot (int (Suc (Suc n)))] else [])"
proof -
  obtain s out where 1: "run_points tot (Suc n) (0, 0) = (s, out)"
    by (cases "run_points tot (Suc n) (0, 0)")
  have s: "s = (percentage tot (int (Suc n)), int (Suc n))"
    using run_points_state[of 0 n tot 0] assms 1 by simp
  have u: "to_ulong (int (Suc n) + 1) = int (Suc (Suc n))"
    using assms by (simp add: to_ulong_def)
  have "run_points tot (Suc n + Suc 0) (0, 0)
      = (case run_points tot (Suc 0) s of (s2, o2) \<Rightarrow> (s2, out @ o2))"
    unfolding run_points_add 1 by simp
  then show ?thesis
    unfolding progress_def using 1 u by (simp add: s run_points_1 del: run_points.simps)
qed

lemma progress_10: "progress 10 10 = [10, 20, 30, 40, 50, 60, 70, 80, 90, 100]"
  by code_simp

text \<open>Claim C4, amended. The signals of a run that ends without fault are the percentages
  that the progress rule emits for the points of the run, in the order of the points, and
  then the completion notification: a percentage is emitted exactly when it differs from
  the last one emitted, and the last one starts at 0. As long as the arithmetic does not
  overflow (a total above zero, and for a run of \<open>n\<close> points \<open>n * 100\<close> below \<open>2^64\<close> and
  \<open>n * 100 div totalPoints\<close> below \<open>2^31\<close>), the percentage of point \<open>k\<close> is
  \<open>k * 100 div totalPoints\<close>, it is emitted exactly when it differs from that of point
  \<open>k - 1\<close>, and the emitted percentages are strictly increasing from above 0, so that none
  is emitted twice and 0 is not emitted. A run of 10 points with a total of 10 emits 10, 20,
  \<dots>, 100.\<close>

theorem progress_notifications:
  "(updateCoefficientSets ch st = Inr st' \<longrightarrow>
      emitted st' = emitted st
        @ map updateCoefficientsPercent
            (progress (grand_total ch st) (points_stored (coeffSets st')))
        @ [updateCoefficientsDone])
   \<and> (0 < tot \<and> int n * 100 < 2 ^ 64 \<and> int n * 100 div tot < 2 ^ 31 \<longrightarrow>
        progress tot n
          = map (\<lambda>k. k * 100 div tot)
              (filter (\<lambda>k. k * 100 div tot \<noteq> (k - 1) * 100 div tot) [1..int n])
      \<and> sorted_wrt (<) (0 # progress tot n))
   \<and> progress 10 10 = [10, 20, 30, 40, 50, 60, 70, 80, 90, 100]"
  using run_emits_progress progress_exact progress_sorted progress_10 by blast

theorem progress_notifications_witness:
  "\<exists>st'. updateCoefficientSets (sim_channel ''FACTORY'') (new_session 2) = Inr st'
     \<and> grand_total (sim_channel ''FACTORY'') (new_session 2) = 10
     \<and> points_stored (coeffSets st') = 10
     \<and> emitted st' = map updateCoefficientsPercent [10, 20, 30, 40, 50, 60, 70, 80, 90, 100]
         @ [updateCoefficientsDone]
     \<and> sorted_wrt (<) (0 # progress 10 10)"
proof -
  have "case updateCoefficientSets (sim_channel ''FACTORY'') (new_session 2) of
          Inr s \<Rightarrow> points_stored (coeffSets s) = 10 | Inl e \<Rightarrow> False"
    by code_simp
  then obtain st' where run: "updateCoefficientSets (sim_channel ''FACTORY'') (new_session 2) = Inr st'"
    and n: "points_stored (coeffSets st') = 10"
    by (cases "updateCoefficientSets (sim_channel ''FACTORY'') (new_session 2)") auto
  have g: "grand_total (sim_channel ''FACTORY'') (new_session 2) = 10"
    by code_simp
  have e: "emitted (new_session 2) = []" by (simp add: new_session_def)
  have prem: "(0::int) < 10 \<and> int 10 * 100 < 2 ^ 64 \<and> int 10 * 100 div 10 < 2 ^ 31"
    by simp
  have "emitted st' = emitted (new_session 2)
      @ map updateCoefficientsPercent
          (progress (grand_total (sim_channel ''FACTORY'') (new_session 2))
             (points_stored (coeffSets st')))
      @ [updateCoefficientsDone]"
    using progress_notifications[where ch = "sim_channel ''FACTORY''" and st = "new_session 2"
        and st' = st', THEN conjunct1] run by blast
  moreover have "progress 10 10 = [10, 20, 30, 40, 50, 60, 70, 80, 90, 100]"
    using progress_notifications[where ch = "sim_channel ''FACTORY''" and st = "new_session 2"
        and st' = st', THEN conjunct2, THEN conjunct2] .
  moreover have "sorted_wrt (<) (0 # progress 10 10)"
    using progress_notifications[where tot = 10 and n = 10 and ch = "sim_channel ''FACTORY''"
        and st = "new_session 2" and st' = st', THEN conjunct2, THEN conjunct1, THEN mp,
        OF prem, THEN conjunct2] .
  ultimately show ?thesis
    using run n g e by simp
qed

text \<open>Claim C4 as stated fails: the simulated run has a total of 10 points and emits 10, 20,
  \<dots>, 100 and the completion notification, but not 0. And the conditions on the arithmetic
  are needed. With a total of 184467440737095517 points the product \<^verbatim>\<open>readPoints * 100\<close>
  wraps in \<^verbatim>\<open>unsigned long\<close> at the last point, whose percentage is 0, emitted after 99.
  With a total of 1 the percentage of point 21474837 does not fit the \<^verbatim>\<open>int\<close>: it is
  negative and is emitted after 2147483600.\<close>

theorem progress_omits_0_or_wraps:
  "grand_total (sim_channel ''FACTORY'') (new_session 2) = 10
   \<and> (case updateCoefficientSets (sim_channel ''FACTORY'') (new_session 2) of
        Inr s \<Rightarrow> emitted s = map updateCoefficientsPercent [10, 20, 30, 40, 50, 60, 70, 80, 90, 100]
                    @ [updateCoefficientsDone]
                \<and> updateCoefficientsPercent 0 \<notin> set (emitted s)
      | Inl e \<Rightarrow> False)
   \<and> percentage 184467440737095517 184467440737095516 = 99
   \<and> progress 184467440737095517 184467440737095517
       = progress 184467440737095517 184467440737095516 @ [0]
   \<and> percentage 1 21474836 = 2147483600
   \<and> progress 1 21474837 = progress 1 21474836 @ [- 2147483596]"
proof -
  have run: "grand_total (sim_channel ''FACTORY'') (new_session 2) = 10
   \<and> (case updateCoefficientSets (sim_channel ''FACTORY'') (new_session 2) of
        Inr s \<Rightarrow> emitted s = map updateCoefficientsPercent [10, 20, 30, 40, 50, 60, 70, 80, 90, 100]
                    @ [updateCoefficientsDone]
                \<and> updateCoefficientsPercent 0 \<notin> set (emitted s)
      | Inl e \<Rightarrow> False)"
    by code_simp
  have n: "(184467440737095517::nat) = Suc (Suc 184467440737095515)"
    "(184467440737095516::nat) = Suc 184467440737095515"
    "(21474837::nat) = Suc (Suc 21474835)" "(21474836::nat) = Suc 21474835"
    by simp_all
  have p: "percentage 184467440737095517 184467440737095517 = 0"
    "percentage 184467440737095517 184467440737095516 = 99"
    "percentage 1 21474837 = - 2147483596" "percentage 1 21474836 = 2147483600"
    by (simp_all add: percentage_def to_ulong_def to_int_def)
  have a: "progress 184467440737095517 184467440737095517
       = progress 184467440737095517 184467440737095516 @ [0]"
    unfolding n using progress_last_point[of 184467440737095515 184467440737095517] p
    by simp
  have b: "progress 1 21474837 = progress 1 21474836 @ [- 2147483596]"
    unfolding n using progress_last_point[of 21474835 1] p
    by simp
  from run p(2,4) a b show ?thesis by blast
qed

end
